theory Spec2Isabelle
  imports Complex_Main
begin

section \<open>JavaScript strings\<close>

text \<open>
  A JavaScript string is a sequence of UTF-16 code units, and every string operation the
  parser uses (\<^verbatim>\<open>trim\<close>, \<^verbatim>\<open>replace\<close> with a regular expression that has no
  \<^verbatim>\<open>u\<close> flag, \<^verbatim>\<open>lastIndexOf\<close>, \<^verbatim>\<open>split\<close>, \<^verbatim>\<open>length\<close>) works on code units.
  A string is therefore a list of code-unit values. The currency symbols of the source
  are all in the Basic Multilingual Plane, one code unit each.
\<close>

type_synonym jschar = nat
type_synonym jsstring = "jschar list"

text \<open>String literals of ASCII text, for readability: \<open>ascii ''1,234''\<close>.\<close>

definition ascii :: "string \<Rightarrow> jsstring" where
  "ascii s = map of_char s"

abbreviation DOT :: jschar where "DOT \<equiv> 46"
abbreviation COMMA :: jschar where "COMMA \<equiv> 44"
abbreviation MINUS :: jschar where "MINUS \<equiv> 45"
abbreviation LPAREN :: jschar where "LPAREN \<equiv> 40"
abbreviation RPAREN :: jschar where "RPAREN \<equiv> 41"
abbreviation ZERO :: jschar where "ZERO \<equiv> 48"

text \<open>
  \<^verbatim>\<open>\s\<close> in a regular expression and the characters removed by \<^verbatim>\<open>trim()\<close> are the
  same set (ECMA-262 WhiteSpace and LineTerminator): TAB, LF, VT, FF, CR, SPACE, U+00A0,
  U+1680, U+2000 to U+200A, U+2028, U+2029, U+202F, U+205F, U+3000, U+FEFF.
\<close>

definition isWhiteSpace :: "jschar \<Rightarrow> bool" where
  "isWhiteSpace c \<longleftrightarrow>
     c \<in> {9, 10, 11, 12, 13, 32, 160, 5760, 8232, 8233, 8239, 8287, 12288, 65279}
     \<or> (8192 \<le> c \<and> c \<le> 8202)"

text \<open>\<^verbatim>\<open>\d\<close> is \<^verbatim>\<open>[0-9]\<close>.\<close>

definition isDigit :: "jschar \<Rightarrow> bool" where
  "isDigit c \<longleftrightarrow> 48 \<le> c \<and> c \<le> 57"

text \<open>
  \<^verbatim>\<open>[A-Z]\<close> under the \<^verbatim>\<open>i\<close> flag (no \<^verbatim>\<open>u\<close> flag) matches the 52 ASCII letters:
  case folding never maps a code unit above 127 to one below 128.
\<close>

definition isLetter :: "jschar \<Rightarrow> bool" where
  "isLetter c \<longleftrightarrow> (65 \<le> c \<and> c \<le> 90) \<or> (97 \<le> c \<and> c \<le> 122)"

text \<open>
  The character class of the first \<^verbatim>\<open>replace\<close>, in the order of the source (with its
  repetitions): \<^verbatim>\<open>$\<close>, U+20AC, U+00A3, U+00A5, U+20B9, U+20BD, U+20B1, U+20A9, U+20AA,
  U+20B4, U+20A6, \<^verbatim>\<open>R\<close>, \<^verbatim>\<open>r\<close>, U+20A8, \<open>\<dots>\<close>, U+FDFC, U+FE69, U+FF04, U+FFE0, U+FFE1,
  U+FFE5, U+FFE6.
\<close>

definition currencySymbols :: "jschar list" where
  "currencySymbols =
     [36, 8364, 163, 165, 8377, 8381, 8369, 8361, 8362, 8372, 8358, 82, 114, 8360, 8373,
      8370, 8376, 8378, 8380, 8382, 8383, 162, 3647, 8353, 8354, 8355, 8356, 8357, 8359,
      8360, 8362, 8363, 8365, 8366, 8367, 8368, 8369, 8370, 8371, 8372, 8373, 8374, 8375,
      8376, 8377, 8378, 8379, 8380, 8381, 8382, 8383, 65020, 65129, 65284, 65504, 65505,
      65509, 65510]"

definition isCurrencySymbol :: "jschar \<Rightarrow> bool" where
  "isCurrencySymbol c \<longleftrightarrow> c \<in> set currencySymbols"

text \<open>\<^verbatim>\<open>s.trimEnd()\<close> and \<^verbatim>\<open>s.trim()\<close>\<close>

definition trimEnd :: "jsstring \<Rightarrow> jsstring" where
  "trimEnd s = rev (dropWhile isWhiteSpace (rev s))"

definition trim :: "jsstring \<Rightarrow> jsstring" where
  "trim s = trimEnd (dropWhile isWhiteSpace s)"

text \<open>
  \<^verbatim>\<open>s.replace(/^[$...]/g, '')\<close>: the class is anchored at the start of the input and
  there is no \<^verbatim>\<open>m\<close> flag, so even with \<^verbatim>\<open>g\<close> only a first character can match.
\<close>

definition stripCurrencySymbol :: "jsstring \<Rightarrow> jsstring" where
  "stripCurrencySymbol s =
     (case s of [] \<Rightarrow> [] | c # rest \<Rightarrow> if isCurrencySymbol c then rest else s)"

text \<open>\<^verbatim>\<open>s.replace(/^[A-Z]{3}\s*/i, '')\<close>: three letters at the start and the whole run
  of white space after them (\<^verbatim>\<open>\s*\<close> is greedy).\<close>

definition stripLeadingCode :: "jsstring \<Rightarrow> jsstring" where
  "stripLeadingCode s =
     (if 3 \<le> length s \<and> list_all isLetter (take 3 s)
      then dropWhile isWhiteSpace (drop 3 s) else s)"

text \<open>
  \<^verbatim>\<open>s.replace(/\s*[A-Z]{3}$/i, '')\<close>: the match is the leftmost one, so when the last
  three characters are letters it starts at the beginning of the white space that
  precedes them, and everything from there to the end is removed.
\<close>

definition stripTrailingCode :: "jsstring \<Rightarrow> jsstring" where
  "stripTrailingCode s =
     (if 3 \<le> length s \<and> list_all isLetter (drop (length s - 3) s)
      then trimEnd (take (length s - 3) s) else s)"

text \<open>\<^verbatim>\<open>s.lastIndexOf(c)\<close>: the index of the last occurrence, \<open>-1\<close> when there is none.\<close>

definition lastIndexOf :: "jsstring \<Rightarrow> jschar \<Rightarrow> int" where
  "lastIndexOf s c =
     (if c \<in> set s then int (length s) - 1 - int (length (takeWhile (\<lambda>x. x \<noteq> c) (rev s)))
      else - 1)"

text \<open>\<^verbatim>\<open>s.substring(i)\<close> for an index \<open>i \<ge> 0\<close>.\<close>

definition substring :: "jsstring \<Rightarrow> int \<Rightarrow> jsstring" where
  "substring s i = drop (nat i) s"

text \<open>\<^verbatim>\<open>s.includes(c)\<close> for a one-character string \<open>c\<close>.\<close>

definition includes_char :: "jsstring \<Rightarrow> jschar \<Rightarrow> bool" where
  "includes_char s c \<longleftrightarrow> c \<in> set s"

text \<open>\<^verbatim>\<open>s.split(c)\<close> for a one-character separator: never an empty array.\<close>

fun splitOn :: "jschar \<Rightarrow> jsstring \<Rightarrow> jsstring list" where
  "splitOn sep [] = [[]]"
| "splitOn sep (c # cs) =
     (if c = sep then [] # splitOn sep cs
      else (case splitOn sep cs of [] \<Rightarrow> [[c]] | p # ps \<Rightarrow> (c # p) # ps))"

text \<open>\<^verbatim>\<open>s.replace(new RegExp('\\' + c, 'g'), '')\<close>: every occurrence of \<open>c\<close> removed.\<close>

definition removeAll_char :: "jschar \<Rightarrow> jsstring \<Rightarrow> jsstring" where
  "removeAll_char c s = filter (\<lambda>x. x \<noteq> c) s"

text \<open>\<^verbatim>\<open>s.replace(/\s/g, '')\<close>\<close>

definition removeSpaces :: "jsstring \<Rightarrow> jsstring" where
  "removeSpaces s = filter (\<lambda>x. \<not> isWhiteSpace x) s"

text \<open>\<^verbatim>\<open>s.replace(/[-\(\)]/g, '')\<close>\<close>

definition removeSignMarkers :: "jsstring \<Rightarrow> jsstring" where
  "removeSignMarkers s = filter (\<lambda>x. x \<noteq> MINUS \<and> x \<noteq> LPAREN \<and> x \<noteq> RPAREN) s"

text \<open>\<^verbatim>\<open>/^\d*$/.test(s)\<close>\<close>

definition onlyDigits :: "jsstring \<Rightarrow> bool" where
  "onlyDigits s \<longleftrightarrow> list_all isDigit s"

text \<open>\<^verbatim>\<open>s.padStart(n, c)\<close> for a one-character pad string.\<close>

definition padStart :: "nat \<Rightarrow> jschar \<Rightarrow> jsstring \<Rightarrow> jsstring" where
  "padStart n c s = replicate (n - length s) c @ s"

section \<open>JavaScript numbers\<close>

text \<open>
  A JavaScript Number is an IEEE 754 double. The parser only ever makes Numbers out of
  strings of decimal digits, so every finite Number it handles is an integer, and it is
  modelled by its exact value. What makes a double different from an integer is written
  out: a value of more than 53 significant bits is rounded to the nearest double, ties
  to the even significand (\<open>toDouble\<close>); a value that rounds to \<open>2 ^ 1024\<close> or more is
  \<^verbatim>\<open>Infinity\<close>; \<^verbatim>\<open>parseInt\<close> of a string that does not start with a digit is
  \<^verbatim>\<open>NaN\<close>. The sign of zero is not modelled: \<^verbatim>\<open>-0\<close> and \<^verbatim>\<open>0\<close> are both \<open>Num 0\<close>
  (they are \<^verbatim>\<open>==\<close> in JavaScript). ECMA-262 allows an implementation of
  \<^verbatim>\<open>parseInt\<close> to read the digits after the twentieth as zeros; the model rounds the
  exact value, as Node does.
\<close>

datatype jsnumber = Num int | PosInfinity | NegInfinity | NaN

fun bitLength :: "nat \<Rightarrow> nat" where
  "bitLength n = (if n = 0 then 0 else Suc (bitLength (n div 2)))"

declare bitLength.simps [simp del]

text \<open>The nearest double to a natural number that is below the overflow threshold.\<close>

definition toDouble :: "nat \<Rightarrow> nat" where
  "toDouble n =
     (if n < 2 ^ 53 then n
      else let e = bitLength n - 53; q = n div 2 ^ e; r = n mod 2 ^ e; h = 2 ^ (e - 1)
           in (if h < r \<or> (r = h \<and> odd q) then q + 1 else q) * 2 ^ e)"

text \<open>
  The largest double is \<open>2 ^ 1024 - 2 ^ 971\<close>; a natural number from half a step above
  it on rounds to \<^verbatim>\<open>Infinity\<close>.
\<close>

definition overflowThreshold :: nat where
  "overflowThreshold = 2 ^ 1024 - 2 ^ 970"

definition numberOfNat :: "nat \<Rightarrow> jsnumber" where
  "numberOfNat n = (if n < overflowThreshold then Num (int (toDouble n)) else PosInfinity)"

definition digitsValue :: "jsstring \<Rightarrow> nat" where
  "digitsValue ds = foldl (\<lambda>a c. 10 * a + (c - 48)) 0 ds"

text \<open>
  \<^verbatim>\<open>parseInt(s)\<close> with no radix, for a string that starts neither with white space, nor
  with a sign, nor with \<^verbatim>\<open>0x\<close> (the parser never passes such a string): the longest
  prefix of decimal digits is read, \<^verbatim>\<open>NaN\<close> when it is empty.
\<close>

definition parseInt :: "jsstring \<Rightarrow> jsnumber" where
  "parseInt s =
     (let ds = takeWhile isDigit s
      in if ds = [] then NaN else numberOfNat (digitsValue ds))"

text \<open>\<^verbatim>\<open>x + 1\<close>: the exact sum, rounded to a double.\<close>

fun plusOne :: "jsnumber \<Rightarrow> jsnumber" where
  "plusOne (Num n) =
     (if 0 \<le> n then numberOfNat (nat n + 1) else Num (- int (toDouble (nat (- n) - 1))))"
| "plusOne x = x"

text \<open>\<^verbatim>\<open>x >= k\<close> for an integer constant \<open>k\<close>; every comparison with \<^verbatim>\<open>NaN\<close> is false.\<close>

fun numGE :: "jsnumber \<Rightarrow> int \<Rightarrow> bool" where
  "numGE (Num n) k \<longleftrightarrow> k \<le> n"
| "numGE PosInfinity k \<longleftrightarrow> True"
| "numGE x k \<longleftrightarrow> False"

text \<open>\<^verbatim>\<open>-x\<close>\<close>

fun negate :: "jsnumber \<Rightarrow> jsnumber" where
  "negate (Num n) = Num (- n)"
| "negate PosInfinity = NegInfinity"
| "negate NegInfinity = PosInfinity"
| "negate x = x"

fun decimalDigits :: "nat \<Rightarrow> jsstring" where
  "decimalDigits n =
     (if n < 10 then [48 + n] else decimalDigits (n div 10) @ [48 + n mod 10])"

declare decimalDigits.simps [simp del]

text \<open>
  \<^verbatim>\<open>x.toString()\<close> prints the decimal with the fewest significant digits that reads
  back as the same double, the closest to the value when there are several, the one
  with the even last digit when two are equally close (ECMA-262, Number::toString). For
  an integer double \<open>w\<close> such a decimal is a multiple of \<open>10 ^ j\<close> next to \<open>w\<close>, below
  or above, with \<open>j\<close> as large as possible; \<open>j = 0\<close> gives \<open>w\<close> itself.
\<close>

definition roundsTo :: "nat \<Rightarrow> nat \<Rightarrow> bool" where
  "roundsTo c w \<longleftrightarrow> numberOfNat c = Num (int w)"

fun shortestFrom :: "nat \<Rightarrow> nat \<Rightarrow> nat" where
  "shortestFrom w j =
     (if j = 0 then w
      else let p = 10 ^ j; lo = w div p * p; hi = lo + p;
               below = roundsTo lo w; above = roundsTo hi w
           in if below \<and> above then
                (if w - lo < hi - w then lo
                 else if hi - w < w - lo then hi
                 else if even (w div p) then lo else hi)
              else if below then lo
              else if above then hi
              else shortestFrom w (j - 1))"

declare shortestFrom.simps [simp del]

definition shortestDecimal :: "nat \<Rightarrow> nat" where
  "shortestDecimal w = shortestFrom w (length (decimalDigits w))"

text \<open>
  A decimal of more than 21 digits is printed with an exponent: the first significant
  digit, then a point and the other significant digits when there are any, then
  \<^verbatim>\<open>e+\<close> and the number of digits after the first. The decimal of a number other
  than zero has a significant digit, so the first case below does not arise.
\<close>

definition exponentForm :: "jsstring \<Rightarrow> jsstring" where
  "exponentForm ds =
     (case rev (dropWhile (\<lambda>c. c = ZERO) (rev ds)) of
        [] \<Rightarrow> []
      | d # rest \<Rightarrow>
          d # (if rest = [] then [] else DOT # rest) @ ascii ''e+''
            @ decimalDigits (length ds - 1))"

text \<open>
  Every integer up to \<open>2 ^ 53\<close> is a double, and no shorter decimal reads back as it:
  it prints as its own digits.
\<close>

definition naturalToString :: "nat \<Rightarrow> jsstring" where
  "naturalToString w =
     (if w \<le> 2 ^ 53 then decimalDigits w
      else let ds = decimalDigits (shortestDecimal w)
           in if length ds \<le> 21 then ds else exponentForm ds)"

fun toString :: "jsnumber \<Rightarrow> jsstring" where
  "toString (Num n) = (if n < 0 then [MINUS] else []) @ naturalToString (nat \<bar>n\<bar>)"
| "toString PosInfinity = ascii ''Infinity''"
| "toString NegInfinity = ascii ''-Infinity''"
| "toString NaN = ascii ''NaN''"

section \<open>The parser\<close>

text \<open>
  \<^verbatim>\<open>parseMoney\<close> takes any JavaScript value and either returns a Number or throws an
  \<^verbatim>\<open>Error\<close>. The four \<^verbatim>\<open>throw\<close> statements are the four errors; the last two carry
  the original input in their message.
\<close>

datatype jsvalue = JSString jsstring | NotAString

datatype error =
    InputMustBeString
  | EmptyMoneyString
  | InvalidIntegerPart jsstring
  | InvalidDecimalPart jsstring

text \<open>
  The two failure kinds of the specification: \<open>EmptyInput\<close> is an input that is not a
  string or is blank, \<open>InvalidCharacters\<close> is a part left with something else than
  digits.
\<close>

datatype failure = EmptyInput | InvalidCharacters

fun failureKind :: "error \<Rightarrow> failure" where
  "failureKind InputMustBeString = EmptyInput"
| "failureKind EmptyMoneyString = EmptyInput"
| "failureKind (InvalidIntegerPart s) = InvalidCharacters"
| "failureKind (InvalidDecimalPart s) = InvalidCharacters"

subsection \<open>\<^verbatim>\<open>parseMoney\<close> of the stand-alone script, stage by stage\<close>

text \<open>Symbol and code removal: \<^verbatim>\<open>withoutCurrency\<close>, \<^verbatim>\<open>withoutCode\<close>, \<^verbatim>\<open>cleanedText\<close>.\<close>

definition cleanText :: "jsstring \<Rightarrow> jsstring" where
  "cleanText trimmed =
     (let withoutCurrency = stripCurrencySymbol trimmed;
          withoutCode = stripTrailingCode (stripLeadingCode withoutCurrency)
      in trim withoutCode)"

text \<open>
  The roles of the separators, \<open>(decimalSeparator, thousandSeparator)\<close>, with \<open>None\<close>
  for \<^verbatim>\<open>null\<close>. Both variables start as \<^verbatim>\<open>'.'\<close> and \<^verbatim>\<open>','\<close> and keep these values
  where no branch assigns them. The chain of \<^verbatim>\<open>else if\<close> is kept as it is written.
\<close>

definition inferSeparators :: "jsstring \<Rightarrow> jschar option \<times> jschar option" where
  "inferSeparators cleanedText =
     (let lastDotIndex = lastIndexOf cleanedText DOT;
          lastCommaIndex = lastIndexOf cleanedText COMMA
      in if lastCommaIndex > lastDotIndex then (Some COMMA, Some DOT)
         else if lastDotIndex > lastCommaIndex then (Some DOT, Some COMMA)
         else if lastDotIndex = - 1 \<and> lastCommaIndex = - 1 then (None, None)
         else if lastDotIndex \<noteq> - 1 \<and> lastCommaIndex = - 1 then
           (let afterLastDot = substring cleanedText (lastDotIndex + 1)
            in if length afterLastDot = 2 then (Some DOT, Some COMMA)
               else if length afterLastDot = 3 then (None, Some DOT)
               else (Some DOT, Some COMMA))
         else if lastCommaIndex \<noteq> - 1 \<and> lastDotIndex = - 1 then
           (let afterLastComma = substring cleanedText (lastCommaIndex + 1)
            in if length afterLastComma = 2 then (Some COMMA, Some DOT)
               else if length afterLastComma = 3 then (None, Some COMMA)
               else (Some DOT, Some COMMA))
         else (Some DOT, Some COMMA))"

text \<open>
  The split into \<open>(integerPart, decimalPart)\<close>: \<^verbatim>\<open>parts[0]\<close> and
  \<^verbatim>\<open>parts.slice(1).join('')\<close>, or the whole text and \<^verbatim>\<open>'00'\<close>.
\<close>

definition splitParts :: "jsstring \<Rightarrow> jschar option \<Rightarrow> jsstring \<times> jsstring" where
  "splitParts cleanedText decimalSeparator =
     (case decimalSeparator of
        None \<Rightarrow> (cleanedText, ascii ''00'')
      | Some d \<Rightarrow>
          if includes_char cleanedText d
          then (let parts = splitOn d cleanedText in (hd parts, concat (tl parts)))
          else (cleanedText, ascii ''00''))"

text \<open>
  From the cleaned text to \<open>(isNegative, integerPart, decimalPart)\<close> as they stand when
  they are validated: separators inferred, text split, thousands separators and white
  space removed, sign detected and its markers removed from the integer part.
\<close>

definition signedParts :: "jsstring \<Rightarrow> bool \<times> jsstring \<times> jsstring" where
  "signedParts cleanedText =
     (let (decimalSeparator, thousandSeparator) = inferSeparators cleanedText;
          (integerPart, decimalPart) = splitParts cleanedText decimalSeparator;
          integerPart = (case thousandSeparator of
                           None \<Rightarrow> integerPart
                         | Some t \<Rightarrow> removeAll_char t integerPart);
          integerPart = removeSpaces integerPart;
          decimalPart = removeSpaces decimalPart;
          isNegative = (includes_char integerPart MINUS \<or> includes_char integerPart LPAREN);
          integerPart = removeSignMarkers integerPart
      in (isNegative, integerPart, decimalPart))"

text \<open>
  The decimal part brought to two digits, with the carry into the integer part. Both
  parts are strings of digits here and the integer part is not empty.
\<close>

definition normalizeDecimal :: "jsstring \<Rightarrow> jsstring \<Rightarrow> jsstring \<times> jsstring" where
  "normalizeDecimal integerPart decimalPart =
     (if decimalPart = [] then (integerPart, ascii ''00'')
      else if length decimalPart = 1 then (integerPart, decimalPart @ ascii ''0'')
      else if length decimalPart > 2 then
        (let extraDigits = drop 2 decimalPart;
             decimalPart = take 2 decimalPart
         in if numGE (parseInt [hd extraDigits]) 5 then
              (let decimalValue = plusOne (parseInt decimalPart)
               in if numGE decimalValue 100 then
                    (toString (plusOne (parseInt integerPart)), ascii ''00'')
                  else
                    (integerPart, padStart 2 ZERO (toString decimalValue)))
            else (integerPart, decimalPart))
      else (integerPart, decimalPart))"

text \<open>The two parts joined and read as one number, with the sign.\<close>

definition assemble :: "bool \<Rightarrow> jsstring \<Rightarrow> jsstring \<Rightarrow> jsnumber" where
  "assemble isNegative integerPart decimalPart =
     (let (integerPart, decimalPart) = normalizeDecimal integerPart decimalPart;
          result = parseInt (integerPart @ decimalPart)
      in if isNegative then negate result else result)"

definition parseMoney :: "jsvalue \<Rightarrow> error + jsnumber" where
  "parseMoney moneyString =
     (case moneyString of
        NotAString \<Rightarrow> Inl InputMustBeString
      | JSString s \<Rightarrow>
          (let trimmed = trim s
           in if trimmed = [] then Inl EmptyMoneyString
              else
                (let cleanedText = cleanText trimmed;
                     (isNegative, integerPart, decimalPart) = signedParts cleanedText
                 in if \<not> onlyDigits integerPart then Inl (InvalidIntegerPart s)
                    else if \<not> onlyDigits decimalPart then Inl (InvalidDecimalPart s)
                    else
                      Inr (assemble isNegative
                             (if integerPart = [] then ascii ''0'' else integerPart)
                             decimalPart))))"

subsection \<open>\<^verbatim>\<open>parseMoney\<close> of the n8n code node\<close>

text \<open>
  The workflow node carries its own copy of the function. It is transcribed here on its
  own, statement by statement, each \<^verbatim>\<open>let\<close> and each reassignment of the source a
  binding of the same name.
\<close>

definition n8n_parseMoney :: "jsvalue \<Rightarrow> error + jsnumber" where
  "n8n_parseMoney moneyString =
     (case moneyString of
        NotAString \<Rightarrow> Inl InputMustBeString
      | JSString s \<Rightarrow>
          (let trimmed = trim s
           in if trimmed = [] then Inl EmptyMoneyString
              else
                (let withoutCurrency = stripCurrencySymbol trimmed;
                     withoutCode = stripTrailingCode (stripLeadingCode withoutCurrency);
                     cleanedText = trim withoutCode;
                     lastDotIndex = lastIndexOf cleanedText DOT;
                     lastCommaIndex = lastIndexOf cleanedText COMMA;
                     (decimalSeparator, thousandSeparator) =
                       (if lastCommaIndex > lastDotIndex then (Some COMMA, Some DOT)
                        else if lastDotIndex > lastCommaIndex then (Some DOT, Some COMMA)
                        else if lastDotIndex = - 1 \<and> lastCommaIndex = - 1 then (None, None)
                        else if lastDotIndex \<noteq> - 1 \<and> lastCommaIndex = - 1 then
                          (let afterLastDot = substring cleanedText (lastDotIndex + 1)
                           in if length afterLastDot = 2 then (Some DOT, Some COMMA)
                              else if length afterLastDot = 3 then (None, Some DOT)
                              else (Some DOT, Some COMMA))
                        else if lastCommaIndex \<noteq> - 1 \<and> lastDotIndex = - 1 then
                          (let afterLastComma = substring cleanedText (lastCommaIndex + 1)
                           in if length afterLastComma = 2 then (Some COMMA, Some DOT)
                              else if length afterLastComma = 3 then (None, Some COMMA)
                              else (Some DOT, Some COMMA))
                        else (Some DOT, Some COMMA));
                     (integerPart, decimalPart) =
                       (case decimalSeparator of
                          None \<Rightarrow> (cleanedText, ascii ''00'')
                        | Some d \<Rightarrow>
                            if includes_char cleanedText d
                            then (let parts = splitOn d cleanedText
                                  in (hd parts, concat (tl parts)))
                            else (cleanedText, ascii ''00''));
                     integerPart = (case thousandSeparator of
                                      None \<Rightarrow> integerPart
                                    | Some t \<Rightarrow> removeAll_char t integerPart);
                     integerPart = removeSpaces integerPart;
                     decimalPart = removeSpaces decimalPart;
                     isNegative = (includes_char integerPart MINUS
                                   \<or> includes_char integerPart LPAREN);
                     integerPart = removeSignMarkers integerPart
                 in if \<not> onlyDigits integerPart then Inl (InvalidIntegerPart s)
                    else if \<not> onlyDigits decimalPart then Inl (InvalidDecimalPart s)
                    else
                      (let integerPart = (if integerPart = [] then ascii ''0'' else integerPart);
                           (integerPart, decimalPart) =
                             (if decimalPart = [] then (integerPart, ascii ''00'')
                              else if length decimalPart = 1
                              then (integerPart, decimalPart @ ascii ''0'')
                              else if length decimalPart > 2 then
                                (let extraDigits = drop 2 decimalPart;
                                     decimalPart = take 2 decimalPart
                                 in if numGE (parseInt [hd extraDigits]) 5 then
                                      (let decimalValue = plusOne (parseInt decimalPart)
                                       in if numGE decimalValue 100 then
                                            (toString (plusOne (parseInt integerPart)),
                                             ascii ''00'')
                                          else
                                            (integerPart,
                                             padStart 2 ZERO (toString decimalValue)))
                                    else (integerPart, decimalPart))
                              else (integerPart, decimalPart));
                           result = parseInt (integerPart @ decimalPart)
                       in Inr (if isNegative then negate result else result)))))"

section \<open>Decimal numerals\<close>

text \<open>
  The decimal numerals some properties are stated for, and the value they denote: an
  optional minus sign, the digits of the integer part, and optionally a point followed
  by the digits of the fraction.
\<close>

definition decimalNumeral :: "bool \<Rightarrow> jsstring \<Rightarrow> jsstring option \<Rightarrow> jsstring" where
  "decimalNumeral neg ip fr =
     (if neg then [MINUS] else []) @ ip @ (case fr of None \<Rightarrow> [] | Some fp \<Rightarrow> DOT # fp)"

definition numeralValue :: "bool \<Rightarrow> jsstring \<Rightarrow> jsstring option \<Rightarrow> rat" where
  "numeralValue neg ip fr =
     (if neg then - 1 else 1) *
     (of_nat (digitsValue ip) +
      (case fr of None \<Rightarrow> 0 | Some fp \<Rightarrow> of_nat (digitsValue fp) / 10 ^ length fp))"

section \<open>Evaluation\<close>

lemmas parseMoney_eval_parts =
  parseMoney_def trim_def trimEnd_def isWhiteSpace_def cleanText_def stripCurrencySymbol_def
  isCurrencySymbol_def currencySymbols_def stripLeadingCode_def stripTrailingCode_def
  isLetter_def signedParts_def inferSeparators_def lastIndexOf_def substring_def
  splitParts_def includes_char_def removeAll_char_def removeSpaces_def
  removeSignMarkers_def onlyDigits_def isDigit_def assemble_def normalizeDecimal_def
  parseInt_def numberOfNat_def overflowThreshold_def digitsValue_def toDouble_def padStart_def ascii_def
  Let_def bitLength.simps

lemmas parseMoney_eval = parseMoney_eval_parts naturalToString_def decimalDigits.simps

lemma eval_dollar_1234_56:
  "parseMoney (JSString (ascii ''$1,234.56'')) = Inr (Num 123456)"
  by (simp add: parseMoney_eval)

lemma eval_euro_1234_56:
  "parseMoney (JSString (8364 # ascii ''1.234,56'')) = Inr (Num 123456)"
  by (simp add: parseMoney_eval)

lemma eval_yen_1234:
  "parseMoney (JSString (165 # ascii ''1,234'')) = Inr (Num 123)"
  by (simp add: parseMoney_eval)

lemma eval_rupee:
  "parseMoney (JSString (8377 # ascii ''1,23,456.78'')) = Inr (Num 12345678)"
  by (simp add: parseMoney_eval)

lemma eval_pound_ten_million:
  "parseMoney (JSString (163 # ascii ''10,000,000.00'')) = Inr (Num 1000000000)"
  by (simp add: parseMoney_eval)

lemma eval_empty:
  "parseMoney (JSString []) = Inl EmptyMoneyString"
  by (simp add: parseMoney_eval)

lemma eval_dollar_minus_500_25:
  "parseMoney (JSString (ascii ''$-500.25'')) = Inr (Num (- 50025))"
  by (simp add: parseMoney_eval)

lemma eval_dollar_paren_500_25:
  "parseMoney (JSString (ascii ''$(500.25)'')) =
     Inl (InvalidDecimalPart (ascii ''$(500.25)''))"
  by (simp add: parseMoney_eval)

lemma eval_paren_dollar_500_25:
  "parseMoney (JSString (ascii ''($500.25)'')) =
     Inl (InvalidIntegerPart (ascii ''($500.25)''))"
  by (simp add: parseMoney_eval)

lemma eval_1_2345:
  "parseMoney (JSString (ascii ''1.2345'')) = Inr (Num 123)"
  by (simp add: parseMoney_eval)

lemma eval_signedParts_1_2345:
  "signedParts (ascii ''1.2345'') = (False, ascii ''1'', ascii ''2345'')"
  by (simp add: parseMoney_eval)

lemma eval_carry_lost_parts:
  "normalizeDecimal (ascii ''9007199254740992'') (ascii ''995'') =
     (ascii ''9007199254740992'', ascii ''00'')"
  by (simp add: parseMoney_eval)

lemma eval_carry_lost:
  "parseMoney (JSString (ascii ''9007199254740992.995'')) = Inr (Num 900719925474099200)"
  by (simp add: parseMoney_eval)

lemma eval_paren_500_25:
  "parseMoney (JSString (ascii ''(500.25)'')) =
     Inl (InvalidDecimalPart (ascii ''(500.25)''))"
  by (simp add: parseMoney_eval)

lemma eval_dollar_paren_500:
  "parseMoney (JSString (ascii ''$(500)'')) = Inr (Num (- 50000))"
  by (simp add: parseMoney_eval)

subsection \<open>Printing a number above \<open>2 ^ 53\<close>\<close>

lemma numberOfNat_finite: "n < 10 ^ 100 \<Longrightarrow> numberOfNat n = Num (int (toDouble n))"
  by (simp add: numberOfNat_def overflowThreshold_def)

lemma shortestFrom_unfold:
  "shortestFrom w j =
     (if j = 0 then w
      else if roundsTo (w div 10 ^ j * 10 ^ j) w then
        (if roundsTo (w div 10 ^ j * 10 ^ j + 10 ^ j) w then
           (if w - w div 10 ^ j * 10 ^ j < w div 10 ^ j * 10 ^ j + 10 ^ j - w
            then w div 10 ^ j * 10 ^ j
            else if w div 10 ^ j * 10 ^ j + 10 ^ j - w < w - w div 10 ^ j * 10 ^ j
            then w div 10 ^ j * 10 ^ j + 10 ^ j
            else if even (w div 10 ^ j) then w div 10 ^ j * 10 ^ j
            else w div 10 ^ j * 10 ^ j + 10 ^ j)
         else w div 10 ^ j * 10 ^ j)
      else if roundsTo (w div 10 ^ j * 10 ^ j + 10 ^ j) w
      then w div 10 ^ j * 10 ^ j + 10 ^ j
      else shortestFrom w (j - 1))"
  by (subst shortestFrom.simps) (simp add: Let_def)

lemmas toString_eval =
  naturalToString_def shortestDecimal_def shortestFrom_unfold roundsTo_def exponentForm_def
  numberOfNat_finite toDouble_def bitLength.simps decimalDigits.simps ascii_def Let_def

text \<open>
  The double \<open>2 ^ 53 + 4\<close> is printed with all its sixteen digits; \<open>2 ^ 64\<close> and
  \<open>900719925474099584\<close> are printed as the shortest decimal that reads back as them,
  filled up with zeros; \<open>10 ^ 21\<close> is the first number printed with an exponent, and
  \<open>2 ^ 70\<close> is printed with a point and an exponent.
\<close>

lemma eval_naturalToString_16_digits:
  "naturalToString 9007199254740996 = ascii ''9007199254740996''"
  by (simp add: toString_eval)

lemma eval_naturalToString_exponent:
  "naturalToString 1000000000000000000000 = ascii ''1e+21''"
  by (simp add: toString_eval)

lemma eval_naturalToString_zeros:
  "naturalToString (2 ^ 64) = ascii ''18446744073709552000''"
  by (simp add: toString_eval)

lemma eval_toString_shortest:
  "toString (Num 900719925474099584) = ascii ''900719925474099600''"
  by (simp add: toString_eval)

lemma eval_naturalToString_point:
  "naturalToString (2 ^ 70) = ascii ''1.1805916207174113e+21''"
  by (simp add: toString_eval)

text \<open>
  A carry into an integer part above \<open>2 ^ 53\<close>: \<^verbatim>\<open>parseInt("9007199254740995")\<close> is
  the double \<open>9007199254740996\<close>, adding one leaves it there, and the result is the double
  nearest to \<open>900719925474099600\<close>. From \<open>10 ^ 21\<close> on, \<^verbatim>\<open>parseInt\<close> reads the printed
  integer part up to its point or its \<^verbatim>\<open>e\<close>.
\<close>

lemma eval_carry_above_2_53:
  "parseMoney (JSString (ascii ''9007199254740995.995'')) = Inr (Num 900719925474099584)"
  by (simp add: parseMoney_eval_parts eval_naturalToString_16_digits)

lemma eval_carry_exponent:
  "parseMoney (JSString (ascii ''1000000000000000000002.995'')) = Inr (Num 1)"
  by (simp add: parseMoney_eval_parts eval_naturalToString_exponent)

section \<open>Character classes, trimming\<close>

lemma digit_not_space: "isDigit c \<Longrightarrow> \<not> isWhiteSpace c"
  by (auto simp: isDigit_def isWhiteSpace_def)
lemma digit_not_letter: "isDigit c \<Longrightarrow> \<not> isLetter c"
  by (auto simp: isDigit_def isLetter_def)
lemma isCurrencySymbolD:
  "isCurrencySymbol c \<Longrightarrow>
     c \<in> {36, 82, 114, 162, 163, 165, 3647, 65020, 65129, 65284, 65504, 65505, 65509, 65510}
     \<or> (8353 \<le> c \<and> c \<le> 8383)"
  unfolding isCurrencySymbol_def currencySymbols_def
  apply (simp only: list.set insert_iff empty_iff)
  apply (elim disjE)
  apply simp_all
  done
lemma digit_not_symbol: "isDigit c \<Longrightarrow> \<not> isCurrencySymbol c"
  by (auto simp: isDigit_def dest!: isCurrencySymbolD)
lemma digit_not_punct:
  "isDigit c \<Longrightarrow> c \<noteq> DOT \<and> c \<noteq> COMMA \<and> c \<noteq> MINUS \<and> c \<noteq> LPAREN \<and> c \<noteq> RPAREN"
  by (auto simp: isDigit_def)
lemma letter_not_space: "isLetter c \<Longrightarrow> \<not> isWhiteSpace c"
  by (auto simp: isLetter_def isWhiteSpace_def)
lemma symbol_not_space: "isCurrencySymbol c \<Longrightarrow> \<not> isWhiteSpace c"
  by (drule isCurrencySymbolD) (auto simp: isWhiteSpace_def)
lemma space_not_punct:
  "isWhiteSpace c \<Longrightarrow> c \<noteq> DOT \<and> c \<noteq> COMMA \<and> c \<noteq> MINUS \<and> c \<noteq> LPAREN \<and> c \<noteq> RPAREN"
  by (auto simp: isWhiteSpace_def)
lemma letter_symbol: "isLetter c \<Longrightarrow> isCurrencySymbol c \<longleftrightarrow> c = 82 \<or> c = 114"
  by (auto simp: isLetter_def dest!: isCurrencySymbolD)
    (simp_all add: isCurrencySymbol_def currencySymbols_def)

lemma punct_classes [simp]:
  "\<not> isWhiteSpace MINUS" "\<not> isWhiteSpace DOT" "\<not> isWhiteSpace COMMA"
  "\<not> isLetter MINUS" "\<not> isLetter DOT" "\<not> isDigit MINUS" "\<not> isDigit DOT"
  by (simp_all add: isWhiteSpace_def isLetter_def isDigit_def)
lemma minus_not_symbol [simp]: "\<not> isCurrencySymbol MINUS"
  by (auto dest!: isCurrencySymbolD)
lemma space_not_letter: "isWhiteSpace c \<Longrightarrow> \<not> isLetter c"
  by (auto simp: isWhiteSpace_def isLetter_def)

lemma trimEnd_Nil [simp]: "trimEnd [] = []" by (simp add: trimEnd_def)
lemma trim_Nil [simp]: "trim [] = []" by (simp add: trim_def)

lemma trimEnd_id: "s = [] \<or> \<not> isWhiteSpace (last s) \<Longrightarrow> trimEnd s = s"
  by (cases s rule: rev_cases) (auto simp: trimEnd_def)

lemma trimEnd_append_spaces: "list_all isWhiteSpace b \<Longrightarrow> trimEnd (a @ b) = trimEnd a"
  by (induction b rule: rev_induct) (auto simp: trimEnd_def)

lemma trimEnd_append: "trimEnd b \<noteq> [] \<Longrightarrow> trimEnd (a @ b) = a @ trimEnd b"
  unfolding trimEnd_def by (auto simp: dropWhile_append)

lemma trimEnd_last: "trimEnd s \<noteq> [] \<Longrightarrow> \<not> isWhiteSpace (last (trimEnd s))"
  unfolding trimEnd_def using hd_dropWhile [of isWhiteSpace "rev s"] by (simp add: last_rev)

lemma trimEnd_prefix: "\<exists>b. s = trimEnd s @ b \<and> list_all isWhiteSpace b"
proof -
  have "rev s = takeWhile isWhiteSpace (rev s) @ dropWhile isWhiteSpace (rev s)" by simp
  then have "s = rev (dropWhile isWhiteSpace (rev s)) @ rev (takeWhile isWhiteSpace (rev s))"
    by (metis rev_append rev_rev_ident)
  moreover have "list_all isWhiteSpace (rev (takeWhile isWhiteSpace (rev s)))"
    by (simp add: list_all_iff) (meson set_takeWhileD)
  ultimately show ?thesis unfolding trimEnd_def by blast
qed

lemma trimEnd_hd: "trimEnd s \<noteq> [] \<Longrightarrow> hd (trimEnd s) = hd s"
  using trimEnd_prefix [of s] by (metis hd_append2)

lemma trim_id: "s = [] \<or> (\<not> isWhiteSpace (hd s) \<and> \<not> isWhiteSpace (last s)) \<Longrightarrow> trim s = s"
  by (cases s) (auto simp: trim_def trimEnd_id)

lemma trim_wrap:
  assumes "list_all isWhiteSpace a" "list_all isWhiteSpace b" "core \<noteq> []"
    "\<not> isWhiteSpace (hd core)" "\<not> isWhiteSpace (last core)"
  shows "trim (a @ core @ b) = core"
proof -
  have "dropWhile isWhiteSpace (a @ core @ b) = core @ b"
    using assms(1,3,4) by (cases core) (auto simp: dropWhile_append list_all_iff)
  then show ?thesis using assms(2,3,5)
    by (simp add: trim_def trimEnd_append_spaces trimEnd_id)
qed

lemma trim_decomp:
  "\<exists>a b. s = a @ trim s @ b \<and> list_all isWhiteSpace a \<and> list_all isWhiteSpace b"
proof -
  obtain b where b: "dropWhile isWhiteSpace s = trim s @ b" "list_all isWhiteSpace b"
    using trimEnd_prefix [of "dropWhile isWhiteSpace s"] unfolding trim_def by auto
  have "s = takeWhile isWhiteSpace s @ dropWhile isWhiteSpace s" by simp
  moreover have "list_all isWhiteSpace (takeWhile isWhiteSpace s)"
    by (simp add: list_all_iff) (meson set_takeWhileD)
  ultimately show ?thesis using b by metis
qed

lemma trim_ends:
  assumes "trim s \<noteq> []"
  shows "\<not> isWhiteSpace (hd (trim s))" "\<not> isWhiteSpace (last (trim s))"
proof -
  have ne: "dropWhile isWhiteSpace s \<noteq> []"
  proof
    assume "dropWhile isWhiteSpace s = []"
    then have "trim s = []" by (metis trim_def trimEnd_Nil)
    with assms show False by simp
  qed
  then have "\<not> isWhiteSpace (hd (dropWhile isWhiteSpace s))" by (rule hd_dropWhile)
  then show "\<not> isWhiteSpace (hd (trim s))" using assms by (simp add: trim_def trimEnd_hd)
  show "\<not> isWhiteSpace (last (trim s))" using assms by (simp add: trim_def trimEnd_last)
qed

lemma set_trimEnd: "set (trimEnd s) \<subseteq> set s"
  unfolding trimEnd_def using set_dropWhileD by fastforce
lemma set_trim: "set (trim s) \<subseteq> set s"
  unfolding trim_def using set_trimEnd set_dropWhileD by fastforce

subsection \<open>lastIndexOf and the separator roles\<close>

lemma lastIndexOf_absent: "c \<notin> set s \<Longrightarrow> lastIndexOf s c = - 1"
  by (simp add: lastIndexOf_def)

lemma lastIndexOf_present:
  assumes "c \<in> set s"
  shows "0 \<le> lastIndexOf s c" "lastIndexOf s c < int (length s)"
    "s ! nat (lastIndexOf s c) = c"
proof -
  let ?k = "length (takeWhile (\<lambda>x. x \<noteq> c) (rev s))"
  have "takeWhile (\<lambda>x. x \<noteq> c) (rev s) \<noteq> rev s"
    using assms by (simp add: takeWhile_eq_all_conv)
  then have "?k \<noteq> length (rev s)"
    by (metis takeWhile_eq_take take_all order_refl)
  moreover have "?k \<le> length (rev s)" by (rule length_takeWhile_le)
  ultimately have k: "?k < length s" by simp
  then have "\<not> (rev s ! ?k \<noteq> c)"
    using nth_length_takeWhile [of "\<lambda>x. x \<noteq> c" "rev s"] by simp
  then have r: "rev s ! ?k = c" by simp
  have idx: "lastIndexOf s c = int (length s - 1 - ?k)"
    using assms k by (simp add: lastIndexOf_def)
  show "0 \<le> lastIndexOf s c" using idx by simp
  show "lastIndexOf s c < int (length s)" using idx k by simp
  have "nat (lastIndexOf s c) = length s - Suc ?k"
    unfolding idx by simp
  then show "s ! nat (lastIndexOf s c) = c"
    using r k by (simp add: rev_nth)
qed

lemma lastIndexOf_distinct:
  "a \<in> set s \<Longrightarrow> a \<noteq> b \<Longrightarrow> lastIndexOf s a \<noteq> lastIndexOf s b"
  by (metis lastIndexOf_present(3) lastIndexOf_present(1) lastIndexOf_absent
      not_one_le_zero neg_0_le_iff_le zero_neq_one one_neq_neg_one)

lemma inferSeparators_cases:
  "inferSeparators c =
     (if DOT \<notin> set c \<and> COMMA \<notin> set c then (None, None)
      else if lastIndexOf c DOT < lastIndexOf c COMMA then (Some COMMA, Some DOT)
      else (Some DOT, Some COMMA))"
proof -
  consider "DOT \<notin> set c" "COMMA \<notin> set c" | "DOT \<in> set c" | "COMMA \<in> set c"
    by blast
  then show ?thesis
  proof cases
    case 1
    then show ?thesis by (simp add: inferSeparators_def lastIndexOf_absent)
  next
    case 2
    then have "lastIndexOf c DOT \<noteq> lastIndexOf c COMMA"
      by (rule lastIndexOf_distinct) simp
    with 2 show ?thesis by (auto simp: inferSeparators_def Let_def)
  next
    case 3
    then have "lastIndexOf c COMMA \<noteq> lastIndexOf c DOT"
      by (rule lastIndexOf_distinct) simp
    with 3 show ?thesis by (auto simp: inferSeparators_def Let_def)
  qed
qed

subsection \<open>split\<close>

lemma splitOn_ne [simp]: "splitOn d s \<noteq> []"
  by (induction s) (auto split: list.splits)

lemma hd_splitOn: "hd (splitOn d s) = takeWhile (\<lambda>x. x \<noteq> d) s"
  by (induction s) (auto split: list.splits)

lemma concat_tl_splitOn:
  "concat (tl (splitOn d s)) = filter (\<lambda>x. x \<noteq> d) (dropWhile (\<lambda>x. x \<noteq> d) s)"
proof (induction s)
  case Nil
  then show ?case by simp
next
  case (Cons c cs)
  have cc: "concat (splitOn d cs) = filter (\<lambda>x. x \<noteq> d) cs" for cs
    by (induction cs) (auto split: list.splits)
  show ?case using Cons by (auto simp: cc split: list.splits)
qed

lemma splitParts_Some:
  "d \<in> set c \<Longrightarrow>
   splitParts c (Some d) =
     (takeWhile (\<lambda>x. x \<noteq> d) c, filter (\<lambda>x. x \<noteq> d) (dropWhile (\<lambda>x. x \<noteq> d) c))"
  by (simp add: splitParts_def includes_char_def hd_splitOn concat_tl_splitOn)

lemma splitParts_absent:
  "(case d of None \<Rightarrow> True | Some x \<Rightarrow> x \<notin> set c) \<Longrightarrow> splitParts c d = (c, ascii ''00'')"
  by (simp add: splitParts_def includes_char_def split: option.splits)

section \<open>Numbers and digit strings\<close>


lemma toDouble_2_53: "toDouble 9007199254740992 = 9007199254740992"
  by (simp add: toDouble_def bitLength.simps)
lemma numberOfNat_exact: "n \<le> 2 ^ 53 \<Longrightarrow> numberOfNat n = Num (int n)"
proof -
  assume n: "n \<le> 2 ^ 53"
  have big: "(2::nat) ^ 53 < overflowThreshold" by (simp add: overflowThreshold_def)
  have "toDouble n = n"
  proof (cases "n < 2 ^ 53")
    case True
    then show ?thesis by (simp add: toDouble_def)
  next
    case False
    with n have "n = 9007199254740992" by simp
    then show ?thesis by (simp only: toDouble_2_53)
  qed
  with n big show ?thesis by (simp add: numberOfNat_def)
qed

lemma parseInt_digits:
  "onlyDigits ds \<Longrightarrow> ds \<noteq> [] \<Longrightarrow> parseInt ds = numberOfNat (digitsValue ds)"
  by (simp add: parseInt_def onlyDigits_def list_all_iff takeWhile_eq_all_conv [THEN iffD2])

lemma digitsValue_foldl:
  "foldl (\<lambda>a c. 10 * a + (c - 48)) acc ds = acc * 10 ^ length ds + digitsValue ds"
proof -
  define f :: "nat \<Rightarrow> nat \<Rightarrow> nat" where "f = (\<lambda>a c. 10 * a + (c - 48))"
  have "foldl f acc ds = acc * 10 ^ length ds + foldl f 0 ds" for acc
  proof (induction ds arbitrary: acc)
    case Nil
    then show ?case by simp
  next
    case (Cons c cs)
    have "foldl f acc (c # cs) = f acc c * 10 ^ length cs + foldl f 0 cs"
      using Cons.IH [of "f acc c"] by simp
    moreover have "foldl f 0 (c # cs) = f 0 c * 10 ^ length cs + foldl f 0 cs"
      using Cons.IH [of "f 0 c"] by simp
    moreover have "f acc c = 10 * acc + (c - 48)" and "f 0 c = c - 48"
      by (simp_all add: f_def)
    ultimately show ?case by (simp add: algebra_simps)
  qed
  then have "foldl f acc ds = acc * 10 ^ length ds + foldl f 0 ds" .
  then show ?thesis unfolding f_def digitsValue_def .
qed

lemma digitsValue_append:
  "digitsValue (a @ b) = digitsValue a * 10 ^ length b + digitsValue b"
  using digitsValue_foldl [of "digitsValue a" b] by (simp add: digitsValue_def)

lemma digitsValue_Nil [simp]: "digitsValue [] = 0"
  by (simp add: digitsValue_def)

lemma digitsValue_single [simp]: "digitsValue [c] = c - 48"
  by (simp add: digitsValue_def)

lemma digitsValue_two: "digitsValue [a, b] = 10 * (a - 48) + (b - 48)"
  by (simp add: digitsValue_def)

lemma decimalDigits_ne [simp]: "decimalDigits n \<noteq> []"
  by (subst decimalDigits.simps) simp

lemma onlyDigits_decimalDigits: "onlyDigits (decimalDigits n)"
proof (induction n rule: decimalDigits.induct)
  case (1 n)
  show ?case
  proof (cases "n < 10")
    case True
    then show ?thesis by (subst decimalDigits.simps) (simp add: onlyDigits_def isDigit_def)
  next
    case False
    have "n mod 10 < 10" by simp
    then have "isDigit (48 + n mod 10)" unfolding isDigit_def by linarith
    with False 1 show ?thesis
      by (subst decimalDigits.simps) (simp add: onlyDigits_def)
  qed
qed

lemma digitsValue_decimalDigits: "digitsValue (decimalDigits n) = n"
proof (induction n rule: decimalDigits.induct)
  case (1 n)
  show ?case
  proof (cases "n < 10")
    case True
    then show ?thesis by (subst decimalDigits.simps) simp
  next
    case False
    with 1 show ?thesis
      by (subst decimalDigits.simps) (simp add: digitsValue_append)
  qed
qed

lemma two_digit_numeral:
  assumes "k < 100"
  shows "length (padStart 2 ZERO (decimalDigits k)) = 2"
    and "digitsValue (padStart 2 ZERO (decimalDigits k)) = k"
    and "onlyDigits (padStart 2 ZERO (decimalDigits k))"
proof -
  have small: "k div 10 < 10" using assms by simp
  have d: "decimalDigits k = (if k < 10 then [48 + k] else [48 + k div 10, 48 + k mod 10])"
    using small by (subst decimalDigits.simps, subst decimalDigits.simps) simp
  show "length (padStart 2 ZERO (decimalDigits k)) = 2"
    by (simp add: d padStart_def)
  show "digitsValue (padStart 2 ZERO (decimalDigits k)) = k"
    by (simp add: d padStart_def digitsValue_two)
  have "k mod 10 < 10" by simp
  with small show "onlyDigits (padStart 2 ZERO (decimalDigits k))"
    by (auto simp: d padStart_def onlyDigits_def isDigit_def)
qed

lemma digit_value_bound: "isDigit c \<Longrightarrow> c - 48 \<le> 9"
  by (auto simp: isDigit_def)

lemma parseInt_one_digit: "isDigit c \<Longrightarrow> parseInt [c] = Num (int (c - 48))"
  using digit_value_bound [of c]
  by (simp add: parseInt_digits onlyDigits_def numberOfNat_exact)

lemma two_digits_bound: "isDigit a \<Longrightarrow> isDigit b \<Longrightarrow> digitsValue [a, b] \<le> 99"
  using digit_value_bound [of a] digit_value_bound [of b] by (simp add: digitsValue_two)

lemma parseInt_two_digits:
  "isDigit a \<Longrightarrow> isDigit b \<Longrightarrow> parseInt [a, b] = Num (int (digitsValue [a, b]))"
  using two_digits_bound [of a b]
  by (simp add: parseInt_digits onlyDigits_def numberOfNat_exact)

lemma plusOne_nat: "plusOne (Num (int n)) = numberOfNat (n + 1)"
  by simp

lemma toString_nat: "n \<le> 2 ^ 53 \<Longrightarrow> toString (Num (int n)) = decimalDigits n"
  by (simp add: naturalToString_def)

section \<open>The decimal part and the assembled number\<close>

lemma onlyDigits_append [simp]: "onlyDigits (a @ b) \<longleftrightarrow> onlyDigits a \<and> onlyDigits b"
  by (simp add: onlyDigits_def)

lemma onlyDigits_Cons [simp]: "onlyDigits (c # cs) \<longleftrightarrow> isDigit c \<and> onlyDigits cs"
  by (simp add: onlyDigits_def)

lemma onlyDigits_Nil [simp]: "onlyDigits []"
  by (simp add: onlyDigits_def)

lemma onlyDigits_00 [simp]: "onlyDigits (ascii ''00'')" "onlyDigits (ascii ''0'')"
  by (simp_all add: ascii_def isDigit_def)

lemma digitsValue_00 [simp]: "digitsValue (ascii ''00'') = 0" "digitsValue (ascii ''0'') = 0"
  by (simp_all add: ascii_def digitsValue_def)

lemma length_00 [simp]: "length (ascii ''00'') = 2" "length (ascii ''0'') = 1"
  by (simp_all add: ascii_def)

lemma digitsValue_lt: "onlyDigits ds \<Longrightarrow> digitsValue ds < 10 ^ length ds"
proof (induction ds rule: rev_induct)
  case Nil
  then show ?case by simp
next
  case (snoc x xs)
  then have "digitsValue xs < 10 ^ length xs" and "x - 48 \<le> 9"
    by (simp_all add: digit_value_bound)
  then have "digitsValue xs * 10 + (x - 48) < 10 ^ length xs * 10"
    by linarith
  then show ?case by (simp add: digitsValue_append)
qed

lemma normalizeDecimal_short:
  "length dp \<le> 2 \<Longrightarrow>
   normalizeDecimal ip dp =
     (ip, if dp = [] then ascii ''00''
          else if length dp = 1 then dp @ ascii ''0'' else dp)"
  by (simp add: normalizeDecimal_def)

lemma normalizeDecimal_long:
  assumes "isDigit a" and "isDigit b" and "isDigit d"
  shows "normalizeDecimal ip (a # b # d # rest) =
     (if d < 53 then (ip, [a, b])
      else if digitsValue [a, b] < 99
      then (ip, padStart 2 ZERO (decimalDigits (digitsValue [a, b] + 1)))
      else (toString (plusOne (parseInt ip)), ascii ''00''))"
proof -
  define v where "v = digitsValue [a, b]"
  have nd: "normalizeDecimal ip (a # b # d # rest) =
      (if numGE (parseInt [d]) 5 then
         (if numGE (plusOne (parseInt [a, b])) 100 then
            (toString (plusOne (parseInt ip)), ascii ''00'')
          else
            (ip, padStart 2 ZERO (toString (plusOne (parseInt [a, b])))))
       else (ip, [a, b]))"
    by (simp add: normalizeDecimal_def Let_def)
  have third: "numGE (parseInt [d]) 5 \<longleftrightarrow> \<not> d < 53"
    using assms(3) by (auto simp: parseInt_one_digit)
  have le: "v \<le> 99"
    unfolding v_def using assms(1,2) by (rule two_digits_bound)
  have "parseInt [a, b] = Num (int v)"
    unfolding v_def using assms(1,2) by (rule parseInt_two_digits)
  moreover have "numberOfNat (v + 1) = Num (int (v + 1))"
    using le by (intro numberOfNat_exact) simp
  ultimately have inc: "plusOne (parseInt [a, b]) = Num (int (v + 1))"
    by (simp only: plusOne_nat)
  have ge: "numGE (Num (int (v + 1))) 100 \<longleftrightarrow> \<not> v < 99"
    using le by auto
  have str: "toString (Num (int (v + 1))) = decimalDigits (v + 1)"
    using le by (intro toString_nat) simp
  show ?thesis
    unfolding nd third inc ge str v_def [symmetric] by simp
qed

lemma carry_exact:
  assumes "onlyDigits ip" and "ip \<noteq> []" and "digitsValue ip < 2 ^ 53"
  shows "toString (plusOne (parseInt ip)) = decimalDigits (digitsValue ip + 1)"
proof -
  have "parseInt ip = Num (int (digitsValue ip))"
    using assms by (simp add: parseInt_digits numberOfNat_exact)
  moreover have "numberOfNat (digitsValue ip + 1) = Num (int (digitsValue ip + 1))"
    using assms(3) by (intro numberOfNat_exact) simp
  moreover have "toString (Num (int (digitsValue ip + 1))) =
      decimalDigits (digitsValue ip + 1)"
    using assms(3) by (intro toString_nat) simp
  ultimately show ?thesis by (simp only: plusOne_nat)
qed

lemma bitLength_lower: "0 < n \<Longrightarrow> 2 ^ (bitLength n - 1) \<le> n"
proof (induction n rule: bitLength.induct)
  case (1 n)
  define k where "k = bitLength (n div 2)"
  have bl: "bitLength n - 1 = k"
    using "1.prems" unfolding k_def by (subst bitLength.simps) simp
  show ?case
  proof (cases "n div 2 = 0")
    case True
    then have "k = 0" unfolding k_def by (subst bitLength.simps) simp
    with "1.prems" show ?thesis unfolding bl by simp
  next
    case False
    then have ih: "2 ^ (k - 1) \<le> n div 2"
      using "1.IH" "1.prems" unfolding k_def by simp
    have "k = Suc (bitLength (n div 2 div 2))"
      using False unfolding k_def by (subst bitLength.simps) simp
    then obtain j where j: "k = Suc j" by blast
    have "(2::nat) ^ k = 2 * 2 ^ j" unfolding j by simp
    also have "\<dots> \<le> 2 * (n div 2)" using ih unfolding j by simp
    also have "\<dots> \<le> n" by simp
    finally show ?thesis unfolding bl .
  qed
qed

lemma toDouble_le: "toDouble n \<le> 2 * n"
proof (cases "n < 2 ^ 53")
  case True
  then show ?thesis by (simp add: toDouble_def)
next
  case False
  define e where "e = bitLength n - 53"
  define q where "q = n div 2 ^ e"
  have pos: "0 < n" using False by (cases n) simp_all
  have "(2::nat) ^ e \<le> 2 ^ (bitLength n - 1)"
    unfolding e_def by (rule power_increasing) simp_all
  also have "\<dots> \<le> n" using pos by (rule bitLength_lower)
  finally have e: "2 ^ e \<le> n" .
  have "q * 2 ^ e \<le> n" unfolding q_def by simp
  then have "(q + 1) * 2 ^ e \<le> 2 * n" using e by (simp add: algebra_simps)
  moreover have "q * 2 ^ e \<le> (q + 1) * 2 ^ e" by simp
  moreover have "toDouble n = (q + 1) * 2 ^ e \<or> toDouble n = q * 2 ^ e"
    using False by (simp add: toDouble_def Let_def e_def q_def)
  ultimately show ?thesis by auto
qed

lemma threshold_bounds:
  "100 * 2 ^ 53 + 99 < overflowThreshold" "10 ^ 23 < overflowThreshold"
  by (simp_all add: overflowThreshold_def)

subsection \<open>What \<^verbatim>\<open>parseInt\<close> reads in a printed number\<close>

lemma digitsValue_zeros: "\<forall>c\<in>set ds. c = ZERO \<Longrightarrow> digitsValue ds = 0"
proof (induction ds rule: rev_induct)
  case Nil
  then show ?case by simp
next
  case (snoc x xs)
  then show ?case by (simp add: digitsValue_append)
qed

lemma parseInt_one_digit_prefix:
  assumes "isDigit d" and "\<not> isDigit c"
  shows "parseInt (d # c # rest) = Num (int (d - 48))"
proof -
  have "takeWhile isDigit (d # c # rest) = [d]"
    using assms by simp
  moreover have "numberOfNat (d - 48) = Num (int (d - 48))"
    using digit_value_bound [OF assms(1)] by (intro numberOfNat_exact) simp
  ultimately show ?thesis by (simp add: parseInt_def)
qed

lemma parseInt_exponentForm:
  assumes ds: "onlyDigits ds" and nz: "digitsValue ds \<noteq> 0"
  shows "\<exists>n. parseInt (exponentForm ds @ t) = Num n"
proof -
  define sig where "sig = rev (dropWhile (\<lambda>c. c = ZERO) (rev ds))"
  define body where "body = ascii ''e+'' @ decimalDigits (length ds - 1) @ t"
  have "\<exists>c\<in>set ds. c \<noteq> ZERO"
  proof (rule ccontr)
    assume "\<not> (\<exists>c\<in>set ds. c \<noteq> ZERO)"
    then have "\<forall>c\<in>set ds. c = ZERO" by simp
    then have "digitsValue ds = 0" by (rule digitsValue_zeros)
    with nz show False by simp
  qed
  then have "dropWhile (\<lambda>c. c = ZERO) (rev ds) \<noteq> []"
    by (simp add: dropWhile_eq_Nil_conv)
  then have "sig \<noteq> []" unfolding sig_def by simp
  then obtain d rest where sig: "sig = d # rest"
    by (cases sig) simp_all
  have "set sig \<subseteq> set ds"
    unfolding sig_def using set_dropWhileD [of _ "\<lambda>c. c = ZERO" "rev ds"] by auto
  then have "d \<in> set ds" using sig by simp
  then have d: "isDigit d"
    using ds by (simp add: onlyDigits_def list_all_iff)
  have e: "\<not> isDigit DOT" "\<not> isDigit 101"
    by (simp_all add: isDigit_def)
  have b: "body = 101 # 43 # decimalDigits (length ds - 1) @ t"
    by (simp add: body_def ascii_def)
  have "exponentForm ds = (case sig of [] \<Rightarrow> []
      | d # rest \<Rightarrow> d # (if rest = [] then [] else DOT # rest) @ ascii ''e+''
            @ decimalDigits (length ds - 1))"
    unfolding exponentForm_def sig_def ..
  then have ef: "exponentForm ds @ t = d # (if rest = [] then [] else DOT # rest) @ body"
    unfolding sig body_def by simp
  show ?thesis
  proof (cases "rest = []")
    case True
    then have "exponentForm ds @ t = d # 101 # 43 # decimalDigits (length ds - 1) @ t"
      unfolding ef b by simp
    then show ?thesis
      using parseInt_one_digit_prefix [OF d e(2)] by simp
  next
    case False
    then have "exponentForm ds @ t = d # DOT # rest @ body"
      unfolding ef by simp
    then show ?thesis
      using parseInt_one_digit_prefix [OF d e(1)] by simp
  qed
qed

text \<open>
  Whatever finite number is printed, \<^verbatim>\<open>parseInt\<close> of the output followed by \<^verbatim>\<open>00\<close>
  is an integer: the output is a decimal of at most 21 digits, or has one digit before
  a point or an \<^verbatim>\<open>e\<close>.
\<close>

lemma parseInt_naturalToString:
  "\<exists>n. parseInt (naturalToString w @ ascii ''00'') = Num n"
proof -
  have digits: "\<exists>n. parseInt (ds @ ascii ''00'') = Num n"
    if d: "onlyDigits ds" and v: "digitsValue ds < 10 ^ 21" for ds
  proof -
    have "digitsValue (ds @ ascii ''00'') = 100 * digitsValue ds"
      by (simp add: digitsValue_append)
    also have "\<dots> < 10 ^ 23" using v by simp
    also note threshold_bounds(2)
    finally have "numberOfNat (digitsValue (ds @ ascii ''00'')) =
        Num (int (toDouble (digitsValue (ds @ ascii ''00''))))"
      by (simp add: numberOfNat_def)
    moreover have "ascii ''00'' \<noteq> []" by (simp add: ascii_def)
    then have "parseInt (ds @ ascii ''00'') = numberOfNat (digitsValue (ds @ ascii ''00''))"
      using d by (intro parseInt_digits) simp_all
    ultimately show ?thesis by simp
  qed
  show ?thesis
  proof (cases "w \<le> 2 ^ 53")
    case True
    then have "digitsValue (decimalDigits w) < 10 ^ 21"
      by (simp add: digitsValue_decimalDigits)
    from digits [OF onlyDigits_decimalDigits this] True show ?thesis
      by (simp add: naturalToString_def)
  next
    case False
    define ds where "ds = decimalDigits (shortestDecimal w)"
    have d: "onlyDigits ds" unfolding ds_def by (rule onlyDigits_decimalDigits)
    have s: "naturalToString w = (if length ds \<le> 21 then ds else exponentForm ds)"
      using False by (simp add: naturalToString_def ds_def Let_def)
    show ?thesis
    proof (cases "length ds \<le> 21")
      case True
      have "digitsValue ds < 10 ^ length ds" using d by (rule digitsValue_lt)
      also have "\<dots> \<le> (10::nat) ^ 21" using True by (intro power_increasing) simp_all
      finally show ?thesis using digits [OF d] s True by simp
    next
      case long: False
      have "shortestDecimal w \<noteq> 0"
      proof
        assume "shortestDecimal w = 0"
        then have "ds = [48]" unfolding ds_def by (subst decimalDigits.simps) simp
        with long show False by simp
      qed
      then have "digitsValue ds \<noteq> 0"
        unfolding ds_def by (simp add: digitsValue_decimalDigits)
      from parseInt_exponentForm [OF d this] s long show ?thesis by simp
    qed
  qed
qed

text \<open>
  What the rounding step returns for validated parts: the integer part as it is with two
  decimal digits, or, when the carry goes into the integer part, the integer part plus
  one printed, with \<^verbatim>\<open>00\<close>.
\<close>

lemma normalizeDecimal_outcome:
  assumes dp: "onlyDigits dp"
  shows "(\<exists>dp'. normalizeDecimal ip dp = (ip, dp') \<and> onlyDigits dp' \<and> length dp' = 2)
    \<or> normalizeDecimal ip dp = (toString (plusOne (parseInt ip)), ascii ''00'')"
proof (cases "length dp \<le> 2")
  case True
  then consider "dp = []" | "length dp = 1" | "length dp = 2"
    by (cases dp) (auto simp: le_Suc_eq)
  then show ?thesis
  proof cases
    case 1
    then show ?thesis by (simp add: normalizeDecimal_short)
  next
    case 2
    then show ?thesis using dp by (simp add: normalizeDecimal_short)
  next
    case 3
    then show ?thesis using dp by (simp add: normalizeDecimal_short)
  qed
next
  case False
  then obtain a b d rest where dpe: "dp = a # b # d # rest"
    by (cases dp; cases "tl dp"; cases "tl (tl dp)") auto
  then have digs: "isDigit a" "isDigit b" "isDigit d"
    using dp by simp_all
  note nd = normalizeDecimal_long [OF digs, of ip rest, folded dpe]
  show ?thesis
  proof (cases "d < 53")
    case True
    then show ?thesis using nd digs by simp
  next
    case nlt: False
    show ?thesis
    proof (cases "digitsValue [a, b] < 99")
      case True
      then have "digitsValue [a, b] + 1 < 100" by simp
      from two_digit_numeral [OF this] nd nlt True show ?thesis by simp
    next
      case False
      then show ?thesis using nd nlt by simp
    qed
  qed
qed

text \<open>
  The assembled number is an integer as long as a hundred times the integer part plus 99
  is below the overflow threshold.
\<close>

lemma assemble_integer:
  assumes ip: "onlyDigits ip" "ip \<noteq> []" and dp: "onlyDigits dp"
    and small: "100 * digitsValue ip + 99 < overflowThreshold"
  shows "\<exists>n. assemble neg ip dp = Num n"
proof -
  from normalizeDecimal_outcome [OF dp, of ip]
  consider (kept) dp' where "normalizeDecimal ip dp = (ip, dp')"
        "onlyDigits dp'" "length dp' = 2"
    | (carry) "normalizeDecimal ip dp = (toString (plusOne (parseInt ip)), ascii ''00'')"
    by (elim disjE exE conjE) simp_all
  then have "\<exists>n. parseInt (fst (normalizeDecimal ip dp) @ snd (normalizeDecimal ip dp)) = Num n"
  proof cases
    case (kept dp')
    note nd = kept(1) and d = kept(2,3)
    have "digitsValue dp' < 10 ^ 2" using digitsValue_lt [OF d(1)] d(2) by simp
    then have "digitsValue (ip @ dp') \<le> 100 * digitsValue ip + 99"
      using d(2) by (simp add: digitsValue_append)
    also note small
    finally have "parseInt (ip @ dp') = Num (int (toDouble (digitsValue (ip @ dp'))))"
      using ip d by (simp add: parseInt_digits numberOfNat_def)
    then show ?thesis using nd by simp
  next
    case carry
    define w where "w = toDouble (toDouble (digitsValue ip) + 1)"
    have "digitsValue ip < overflowThreshold" using small by simp
    then have p: "parseInt ip = Num (int (toDouble (digitsValue ip)))"
      using ip by (simp add: parseInt_digits numberOfNat_def)
    have "toDouble (digitsValue ip) + 1 < overflowThreshold"
      using toDouble_le [of "digitsValue ip"] small by simp
    then have "plusOne (parseInt ip) = Num (int w)"
      unfolding p plusOne_nat w_def by (simp add: numberOfNat_def)
    then have "toString (plusOne (parseInt ip)) = naturalToString w"
      by simp
    with parseInt_naturalToString [of w] carry show ?thesis by simp
  qed
  then obtain n where "parseInt (fst (normalizeDecimal ip dp) @ snd (normalizeDecimal ip dp)) = Num n"
    by blast
  then show ?thesis
    by (cases neg) (simp_all add: assemble_def Let_def case_prod_beta)
qed

section \<open>Plain decimal numerals through the parser\<close>

lemma filter_id_conv: "(\<forall>x\<in>set s. P x) \<Longrightarrow> filter P s = s"
  by (induction s) auto

lemma takeWhile_until: "x \<notin> set a \<Longrightarrow> takeWhile (\<lambda>y. y \<noteq> x) (a @ x # b) = a"
  by (induction a) auto

lemma dropWhile_until: "x \<notin> set a \<Longrightarrow> dropWhile (\<lambda>y. y \<noteq> x) (a @ x # b) = x # b"
  by (induction a) auto

lemma stripCurrencySymbol_id:
  "s = [] \<or> \<not> isCurrencySymbol (hd s) \<Longrightarrow> stripCurrencySymbol s = s"
  by (cases s) (auto simp: stripCurrencySymbol_def)

lemma stripLeadingCode_id:
  "s = [] \<or> \<not> isLetter (hd s) \<Longrightarrow> stripLeadingCode s = s"
  by (cases s) (auto simp: stripLeadingCode_def)

lemma stripTrailingCode_id:
  assumes "s = [] \<or> \<not> isLetter (last s)"
  shows "stripTrailingCode s = s"
proof (cases "3 \<le> length s")
  case True
  then have ne: "s \<noteq> []" by auto
  have "drop (length s - 3) s \<noteq> []" using True by simp
  then have "last (drop (length s - 3) s) \<in> set (drop (length s - 3) s)"
    by (rule last_in_set)
  moreover have "last (drop (length s - 3) s) = last s"
    using True by (simp add: last_drop)
  ultimately have "\<not> list_all isLetter (drop (length s - 3) s)"
    using assms ne by (auto simp: list_all_iff)
  then show ?thesis by (simp add: stripTrailingCode_def)
next
  case False
  then show ?thesis by (simp add: stripTrailingCode_def)
qed

lemma cleanText_inert:
  assumes "s \<noteq> []"
    and "\<not> isWhiteSpace (hd s)" and "\<not> isWhiteSpace (last s)"
    and "\<not> isCurrencySymbol (hd s)" and "\<not> isLetter (hd s)" and "\<not> isLetter (last s)"
  shows "trim s = s" and "cleanText s = s"
proof -
  show t: "trim s = s" using assms(2,3) by (simp add: trim_id)
  show "cleanText s = s"
    using assms by (simp add: cleanText_def stripCurrencySymbol_id stripLeadingCode_id
        stripTrailingCode_id t)
qed

lemma decimalNumeral_ends:
  assumes "onlyDigits ip" and "ip \<noteq> []"
    and "case fr of None \<Rightarrow> True | Some fp \<Rightarrow> onlyDigits fp"
  shows "decimalNumeral neg ip fr \<noteq> []"
    and "isDigit (hd (decimalNumeral neg ip fr)) \<or> hd (decimalNumeral neg ip fr) = MINUS"
    and "isDigit (last (decimalNumeral neg ip fr)) \<or> last (decimalNumeral neg ip fr) = DOT"
proof -
  show "decimalNumeral neg ip fr \<noteq> []"
    using assms(2) by (simp add: decimalNumeral_def)
  have "isDigit (hd ip)" using assms(1,2) by (cases ip) simp_all
  then show "isDigit (hd (decimalNumeral neg ip fr)) \<or> hd (decimalNumeral neg ip fr) = MINUS"
    using assms(2) by (simp add: decimalNumeral_def)
  have "isDigit (last ip)" using assms(1,2) by (cases ip rule: rev_cases) simp_all
  moreover have "fp \<noteq> [] \<Longrightarrow> onlyDigits fp \<Longrightarrow> isDigit (last fp)" for fp
    by (cases fp rule: rev_cases) simp_all
  ultimately show
    "isDigit (last (decimalNumeral neg ip fr)) \<or> last (decimalNumeral neg ip fr) = DOT"
    using assms(2,3) by (cases fr) (auto simp: decimalNumeral_def)
qed

lemma decimalNumeral_clean:
  assumes "onlyDigits ip" and "ip \<noteq> []"
    and "case fr of None \<Rightarrow> True | Some fp \<Rightarrow> onlyDigits fp"
  shows "trim (decimalNumeral neg ip fr) = decimalNumeral neg ip fr"
    and "cleanText (decimalNumeral neg ip fr) = decimalNumeral neg ip fr"
proof -
  note e = decimalNumeral_ends [OF assms, of neg]
  have h: "\<not> isWhiteSpace (hd (decimalNumeral neg ip fr))"
    "\<not> isCurrencySymbol (hd (decimalNumeral neg ip fr))"
    "\<not> isLetter (hd (decimalNumeral neg ip fr))"
    using e(2) by (auto simp: digit_not_space digit_not_symbol digit_not_letter)
  have l: "\<not> isWhiteSpace (last (decimalNumeral neg ip fr))"
    "\<not> isLetter (last (decimalNumeral neg ip fr))"
    using e(3) by (auto simp: digit_not_space digit_not_letter)
  show "trim (decimalNumeral neg ip fr) = decimalNumeral neg ip fr"
    using e(1) h l by (intro cleanText_inert(1)) simp_all
  show "cleanText (decimalNumeral neg ip fr) = decimalNumeral neg ip fr"
    using e(1) h l by (intro cleanText_inert(2)) simp_all
qed

lemma digits_inert:
  assumes "onlyDigits ds"
  shows "removeSpaces ds = ds" and "removeAll_char COMMA ds = ds"
    and "removeAll_char DOT ds = ds" and "removeSignMarkers ds = ds"
    and "DOT \<notin> set ds" and "COMMA \<notin> set ds" and "MINUS \<notin> set ds" and "LPAREN \<notin> set ds"
proof -
  have d: "\<forall>x\<in>set ds. isDigit x" using assms by (simp add: onlyDigits_def list_all_iff)
  show "removeSpaces ds = ds"
    unfolding removeSpaces_def using d by (intro filter_id_conv) (auto dest: digit_not_space)
  show "removeAll_char COMMA ds = ds"
    unfolding removeAll_char_def using d by (intro filter_id_conv) (auto dest: digit_not_punct)
  show "removeAll_char DOT ds = ds"
    unfolding removeAll_char_def using d by (intro filter_id_conv) (auto dest: digit_not_punct)
  show "removeSignMarkers ds = ds"
    unfolding removeSignMarkers_def using d
    by (intro filter_id_conv) (auto dest: digit_not_punct)
  show "DOT \<notin> set ds" "COMMA \<notin> set ds" "MINUS \<notin> set ds" "LPAREN \<notin> set ds"
    using d by (auto dest: digit_not_punct)
qed

lemma signedParts_numeral:
  assumes ip: "onlyDigits ip"
    and fr: "case fr of None \<Rightarrow> True | Some fp \<Rightarrow> onlyDigits fp"
  shows "signedParts (decimalNumeral neg ip fr) =
      (neg, ip, case fr of None \<Rightarrow> ascii ''00'' | Some fp \<Rightarrow> fp)"
proof -
  define pre where "pre = (if neg then [MINUS] else []) @ ip"
  note i = digits_inert [OF ip]
  have commas: "removeAll_char COMMA pre = pre"
    using i(2) by (simp add: pre_def removeAll_char_def)
  have spaces: "removeSpaces pre = pre"
    using i(1) by (simp add: pre_def removeSpaces_def)
  have zeros: "removeSpaces (ascii ''00'') = ascii ''00''"
    by (simp add: removeSpaces_def ascii_def isWhiteSpace_def)
  have marks: "removeSignMarkers pre = ip"
    using i(4) by (simp add: pre_def removeSignMarkers_def)
  have negative: "includes_char pre MINUS \<or> includes_char pre LPAREN \<longleftrightarrow> neg"
    using i by (simp add: pre_def includes_char_def)
  have nodot: "DOT \<notin> set pre" and nocomma: "COMMA \<notin> set pre"
    using i by (simp_all add: pre_def)
  show ?thesis
  proof (cases fr)
    case None
    then have c: "decimalNumeral neg ip fr = pre"
      by (simp add: decimalNumeral_def pre_def)
    have "inferSeparators pre = (None, None)"
      using nodot nocomma by (simp add: inferSeparators_cases)
    then show ?thesis
      unfolding c signedParts_def
      using None negative marks by (simp add: splitParts_def spaces zeros)
  next
    case (Some fp)
    then have fp: "onlyDigits fp" using fr by simp
    note f = digits_inert [OF fp]
    have c: "decimalNumeral neg ip fr = pre @ DOT # fp"
      using Some by (simp add: decimalNumeral_def pre_def)
    have "COMMA \<notin> set (pre @ DOT # fp)"
      using nocomma f by simp
    then have "lastIndexOf (pre @ DOT # fp) COMMA < lastIndexOf (pre @ DOT # fp) DOT"
      using lastIndexOf_present(1) [of DOT "pre @ DOT # fp"]
      by (simp add: lastIndexOf_absent)
    then have roles: "inferSeparators (pre @ DOT # fp) = (Some DOT, Some COMMA)"
      by (simp add: inferSeparators_cases)
    have "filter (\<lambda>x. x \<noteq> DOT) (DOT # fp) = fp"
      using f(3) by (simp add: removeAll_char_def)
    then have split: "splitParts (pre @ DOT # fp) (Some DOT) = (pre, fp)"
      using nodot by (simp add: splitParts_Some takeWhile_until dropWhile_until)
    show ?thesis
      unfolding c signedParts_def roles
      using Some negative marks f(1) by (simp add: split commas spaces)
  qed
qed

lemma parseMoney_numeral:
  assumes ip: "onlyDigits ip" "ip \<noteq> []"
    and fr: "case fr of None \<Rightarrow> True | Some fp \<Rightarrow> onlyDigits fp \<and> length fp \<le> 2"
  shows "parseMoney (JSString (decimalNumeral neg ip fr)) =
      Inr ((if neg then negate else id)
        (numberOfNat (100 * digitsValue ip +
           (case fr of None \<Rightarrow> 0 | Some fp \<Rightarrow> digitsValue fp * 10 ^ (2 - length fp)))))"
proof -
  define dp where "dp = (case fr of None \<Rightarrow> ascii ''00'' | Some fp \<Rightarrow> fp)"
  define pad where "pad = (if dp = [] then ascii ''00''
      else if length dp = 1 then dp @ ascii ''0'' else dp)"
  have fr': "case fr of None \<Rightarrow> True | Some fp \<Rightarrow> onlyDigits fp"
    using fr by (cases fr) simp_all
  have dp: "onlyDigits dp" "length dp \<le> 2"
    using fr by (cases fr; simp add: dp_def)+
  have pad: "onlyDigits pad" "length pad = 2"
    using dp by (auto simp: pad_def le_Suc_eq numeral_2_eq_2)
  have cents: "digitsValue pad =
      (case fr of None \<Rightarrow> 0 | Some fp \<Rightarrow> digitsValue fp * 10 ^ (2 - length fp))"
  proof (cases fr)
    case None
    then show ?thesis by (simp add: pad_def dp_def)
  next
    case (Some fp)
    then have "length fp = 0 \<or> length fp = 1 \<or> length fp = 2"
      using fr by (auto simp: le_Suc_eq numeral_2_eq_2)
    then show ?thesis
      using Some by (auto simp: pad_def dp_def digitsValue_append)
  qed
  have "parseInt (ip @ pad) = numberOfNat (digitsValue (ip @ pad))"
    using ip pad by (simp add: parseInt_digits)
  also have "digitsValue (ip @ pad) = 100 * digitsValue ip + digitsValue pad"
    using pad(2) by (simp add: digitsValue_append)
  finally have num: "parseInt (ip @ pad) =
      numberOfNat (100 * digitsValue ip + digitsValue pad)" .
  have "assemble neg ip dp =
      (if neg then negate else id) (numberOfNat (100 * digitsValue ip + digitsValue pad))"
    using dp(2) by (simp add: assemble_def normalizeDecimal_short pad_def [symmetric] num)
  then show ?thesis
    using ip dp(1) decimalNumeral_ends(1) [OF ip fr', of neg]
    by (simp add: parseMoney_def decimalNumeral_clean [OF ip fr']
        signedParts_numeral [OF ip(1) fr'] dp_def [symmetric] cents)
qed

lemma digitsValue_nines: "digitsValue (replicate n 57) = 10 ^ n - 1"
proof (induction n)
  case 0
  then show ?case by simp
next
  case (Suc n)
  have "replicate (Suc n) (57::nat) = replicate n 57 @ [57]"
    by (simp add: replicate_append_same)
  then have "digitsValue (replicate (Suc n) 57) = (10 ^ n - 1) * 10 + 9"
    using Suc by (simp add: digitsValue_append del: replicate_Suc)
  also have "\<dots> = 10 ^ Suc n - 1"
    by (simp add: algebra_simps)
  finally show ?case .
qed

lemma eval_310_nines:
  "parseMoney (JSString (replicate 310 57)) = Inr PosInfinity"
proof -
  have d: "onlyDigits (replicate 310 57)" "replicate 310 (57::nat) \<noteq> []"
    by (simp_all add: onlyDigits_def list_all_iff isDigit_def)
  have "overflowThreshold \<le> 100 * (10 ^ 310 - 1)"
    by (simp add: overflowThreshold_def)
  then have "numberOfNat (100 * digitsValue (replicate 310 57)) = PosInfinity"
    by (simp add: numberOfNat_def digitsValue_nines)
  with parseMoney_numeral [OF d, of None False] show ?thesis
    by (simp add: decimalNumeral_def)
qed

section \<open>Symbol and code removal\<close>

lemma signedParts_Nil: "signedParts [] = (False, [], ascii ''00'')"
  by (simp add: parseMoney_eval)

lemma cleanText_Nil: "cleanText [] = []"
  by (simp add: parseMoney_eval)

lemma parseMoney_string:
  assumes "trim s \<noteq> []" and "signedParts (cleanText (trim s)) = (neg, ip, dp)"
  shows "parseMoney (JSString s) =
      (if \<not> onlyDigits ip then Inl (InvalidIntegerPart s)
       else if \<not> onlyDigits dp then Inl (InvalidDecimalPart s)
       else Inr (assemble neg (if ip = [] then ascii ''0'' else ip) dp))"
  using assms by (simp add: parseMoney_def)

lemma trimEnd_spaces: "list_all isWhiteSpace w \<Longrightarrow> trimEnd w = []"
  using trimEnd_append_spaces [of w "[]"] by simp

lemma dropWhile_spaces: "list_all isWhiteSpace w \<Longrightarrow> dropWhile isWhiteSpace (w @ r) = dropWhile isWhiteSpace r"
  by (induction w) auto

lemma stripLeadingCode_code:
  "isLetter k1 \<Longrightarrow> isLetter k2 \<Longrightarrow> isLetter k3 \<Longrightarrow>
   stripLeadingCode (k1 # k2 # k3 # r) = dropWhile isWhiteSpace r"
  by (simp add: stripLeadingCode_def)

lemma stripTrailingCode_code:
  "isLetter k1 \<Longrightarrow> isLetter k2 \<Longrightarrow> isLetter k3 \<Longrightarrow>
   stripTrailingCode (r @ [k1, k2, k3]) = trimEnd r"
  by (simp add: stripTrailingCode_def)

lemma assemble_zero: "assemble False (ascii ''0'') (ascii ''00'') = Num 0"
  by (simp add: parseMoney_eval)

lemma normalizeDecimal_zero:
  "normalizeDecimal (ascii ''0'') (ascii ''00'') = (ascii ''0'', ascii ''00'')"
  by (simp add: parseMoney_eval)

lemma parseMoney_clean_empty:
  "trim s \<noteq> [] \<Longrightarrow> cleanText (trim s) = [] \<Longrightarrow> parseMoney (JSString s) = Inr (Num 0)"
  by (simp add: parseMoney_def signedParts_Nil assemble_zero)

lemma cleanText_symbol: "isCurrencySymbol c \<Longrightarrow> cleanText [c] = []"
  by (simp add: cleanText_def stripCurrencySymbol_def stripLeadingCode_def
      stripTrailingCode_def)

lemma cleanText_code:
  assumes "isLetter k1" and "isLetter k2" and "isLetter k3" and "\<not> isCurrencySymbol k1"
  shows "cleanText [k1, k2, k3] = []"
proof -
  have "stripCurrencySymbol [k1, k2, k3] = [k1, k2, k3]"
    using assms(4) by (simp add: stripCurrencySymbol_def)
  moreover have "stripLeadingCode [k1, k2, k3] = []"
    using assms(1-3) by (simp add: stripLeadingCode_code)
  moreover have "stripTrailingCode [] = []"
    by (simp add: stripTrailingCode_def)
  ultimately show ?thesis by (simp add: cleanText_def)
qed

lemma cleanText_symbol_code:
  assumes "isCurrencySymbol c" and "list_all isWhiteSpace w"
    and "isLetter k1" and "isLetter k2" and "isLetter k3"
  shows "cleanText (c # w @ [k1, k2, k3]) = []"
proof -
  have s: "stripCurrencySymbol (c # w @ [k1, k2, k3]) = w @ [k1, k2, k3]"
    using assms(1) by (simp add: stripCurrencySymbol_def)
  have "stripTrailingCode (stripLeadingCode (w @ [k1, k2, k3])) = []"
  proof (cases w)
    case Nil
    then have "stripLeadingCode (w @ [k1, k2, k3]) = []"
      using assms(3-5) by (simp add: stripLeadingCode_code)
    then show ?thesis by (simp add: stripTrailingCode_def)
  next
    case (Cons x xs)
    then have "\<not> isLetter (hd (w @ [k1, k2, k3]))"
      using assms(2) by (simp add: space_not_letter)
    then have "stripLeadingCode (w @ [k1, k2, k3]) = w @ [k1, k2, k3]"
      by (simp add: stripLeadingCode_id)
    then show ?thesis
      using assms(2-5) by (simp add: stripTrailingCode_code trimEnd_spaces)
  qed
  then show ?thesis unfolding cleanText_def s by simp
qed

lemma eval_RUB:
  "parseMoney (JSString (ascii ''RUB'')) = Inl (InvalidIntegerPart (ascii ''RUB''))"
  by (simp add: parseMoney_eval)

lemma eval_cleanText_RUB: "cleanText (trim (ascii ''RUB'')) = ascii ''UB''"
  by (simp add: parseMoney_eval)

section \<open>A minus sign in front of the input\<close>

lemma lastIndexOf_prefix:
  assumes "x \<notin> set p"
  shows "lastIndexOf (p @ u) x =
      (if x \<in> set u then int (length p) + lastIndexOf u x else - 1)"
proof (cases "x \<in> set u")
  case True
  then have "takeWhile (\<lambda>y. y \<noteq> x) (rev u @ rev p) = takeWhile (\<lambda>y. y \<noteq> x) (rev u)"
    by (intro takeWhile_append1 [of x]) simp_all
  then show ?thesis using True by (simp add: lastIndexOf_def)
next
  case False
  then show ?thesis using assms by (simp add: lastIndexOf_def)
qed

lemma inferSeparators_prefix:
  assumes "DOT \<notin> set p" and "COMMA \<notin> set p"
  shows "inferSeparators (p @ u) = inferSeparators u"
proof -
  have "lastIndexOf u DOT < lastIndexOf u COMMA" if "DOT \<notin> set u" "COMMA \<in> set u"
    using that lastIndexOf_present(1) [of COMMA u] by (simp add: lastIndexOf_absent)
  moreover have "\<not> lastIndexOf u DOT < lastIndexOf u COMMA" if "DOT \<in> set u" "COMMA \<notin> set u"
    using that lastIndexOf_present(1) [of DOT u] by (simp add: lastIndexOf_absent)
  ultimately show ?thesis
    using assms lastIndexOf_present(1) [of COMMA u] lastIndexOf_present(1) [of DOT u]
    by (auto simp: inferSeparators_cases lastIndexOf_prefix)
qed

lemma roles_range:
  assumes "inferSeparators c = (d, t)"
  shows "d = None \<or> d = Some DOT \<or> d = Some COMMA"
    and "t = None \<or> t = Some DOT \<or> t = Some COMMA"
  using assms by (auto simp: inferSeparators_cases split: if_splits)

lemma splitParts_prefix:
  assumes "d = None \<or> d = Some DOT \<or> d = Some COMMA"
    and "DOT \<notin> set p" and "COMMA \<notin> set p"
  shows "splitParts (p @ u) d = (p @ fst (splitParts u d), snd (splitParts u d))"
proof (cases d)
  case None
  then show ?thesis by (simp add: splitParts_def)
next
  case (Some x)
  then have x: "x \<notin> set p" using assms by auto
  show ?thesis
  proof (cases "x \<in> set u")
    case True
    have "takeWhile (\<lambda>y. y \<noteq> x) (p @ u) = p @ takeWhile (\<lambda>y. y \<noteq> x) u"
      using x by (intro takeWhile_append2) auto
    moreover have "dropWhile (\<lambda>y. y \<noteq> x) (p @ u) = dropWhile (\<lambda>y. y \<noteq> x) u"
      using x by (intro dropWhile_append2) auto
    ultimately show ?thesis
      using True Some by (simp add: splitParts_Some)
  next
    case False
    then show ?thesis using x Some by (simp add: splitParts_def includes_char_def)
  qed
qed

lemma set_fst_splitParts: "set (fst (splitParts u d)) \<subseteq> set u"
proof (cases d)
  case None
  then show ?thesis by (simp add: splitParts_def)
next
  case (Some x)
  show ?thesis
  proof (cases "x \<in> set u")
    case True
    then show ?thesis
      using Some by (auto simp: splitParts_Some dest: set_takeWhileD)
  next
    case False
    then show ?thesis using Some by (simp add: splitParts_def includes_char_def)
  qed
qed

text \<open>
  The integer part as it stands when the sign is looked for: after the split and the
  removal of thousands separators and white space.
\<close>

lemma signedParts_unfold:
  assumes "inferSeparators u = (d, t)"
  shows "signedParts u =
      (let i = removeSpaces (case t of None \<Rightarrow> fst (splitParts u d)
                             | Some x \<Rightarrow> removeAll_char x (fst (splitParts u d)))
       in (includes_char i MINUS \<or> includes_char i LPAREN, removeSignMarkers i,
           removeSpaces (snd (splitParts u d))))"
  unfolding signedParts_def assms by (cases t) (simp_all add: Let_def case_prod_beta)

lemma signedParts_negative:
  assumes "fst (signedParts u)"
  shows "MINUS \<in> set u \<or> LPAREN \<in> set u"
proof -
  obtain d t where r: "inferSeparators u = (d, t)" by fastforce
  define i where "i = removeSpaces (case t of None \<Rightarrow> fst (splitParts u d)
      | Some x \<Rightarrow> removeAll_char x (fst (splitParts u d)))"
  have "set i \<subseteq> set (fst (splitParts u d))"
    by (cases t) (auto simp: i_def removeSpaces_def removeAll_char_def)
  then have "set i \<subseteq> set u" using set_fst_splitParts by blast
  moreover have "MINUS \<in> set i \<or> LPAREN \<in> set i"
    using assms unfolding signedParts_unfold [OF r] i_def [symmetric]
    by (simp add: Let_def includes_char_def)
  ultimately show ?thesis by blast
qed

lemma signedParts_minus_prefix:
  assumes a: "list_all isWhiteSpace a"
  shows "signedParts ((MINUS # a) @ u) =
      (True, fst (snd (signedParts u)), snd (snd (signedParts u)))"
proof -
  define p where "p = MINUS # a"
  obtain d t where r: "inferSeparators u = (d, t)" by fastforce
  have np: "DOT \<notin> set p" "COMMA \<notin> set p"
    using a by (auto simp: p_def list_all_iff dest: space_not_punct)
  have r': "inferSeparators (p @ u) = (d, t)"
    using np r by (simp add: inferSeparators_prefix)
  note sp = splitParts_prefix [OF roles_range(1) [OF r] np, of u]
  define j where "j = (case t of None \<Rightarrow> fst (splitParts u d)
      | Some x \<Rightarrow> removeAll_char x (fst (splitParts u d)))"
  have "(case t of None \<Rightarrow> p @ fst (splitParts u d)
      | Some x \<Rightarrow> removeAll_char x (p @ fst (splitParts u d))) = p @ j"
    using roles_range(2) [OF r] np by (auto simp: j_def removeAll_char_def intro!: filter_id_conv)
  moreover have "removeSpaces (p @ j) = MINUS # removeSpaces j"
    using a by (simp add: p_def removeSpaces_def list_all_iff)
  moreover have "removeSignMarkers (MINUS # removeSpaces j) = removeSignMarkers (removeSpaces j)"
    by (simp add: removeSignMarkers_def)
  ultimately show ?thesis
    unfolding p_def [symmetric] signedParts_unfold [OF r] signedParts_unfold [OF r'] sp
    by (cases t) (simp_all add: Let_def includes_char_def j_def)
qed

lemma trimEnd_ne: "x \<noteq> [] \<Longrightarrow> \<not> isWhiteSpace (hd x) \<Longrightarrow> trimEnd x \<noteq> []"
proof
  assume x: "x \<noteq> []" "\<not> isWhiteSpace (hd x)" and e: "trimEnd x = []"
  from trimEnd_prefix [of x] e have "list_all isWhiteSpace x" by auto
  with x show False by (cases x) simp_all
qed

lemma set_stripTrailingCode: "set (stripTrailingCode t) \<subseteq> set t"
  using set_trimEnd [of "take (length t - 3) t"] set_take_subset [of "length t - 3" t]
  by (auto simp: stripTrailingCode_def)

lemma stripTrailingCode_ends:
  assumes "t \<noteq> []" and "\<not> isWhiteSpace (hd t)" and "\<not> isWhiteSpace (last t)"
    and "\<not> (3 \<le> length t \<and> list_all isLetter (take 3 t))"
  shows "stripTrailingCode t \<noteq> []"
    and "\<not> isWhiteSpace (hd (stripTrailingCode t))"
    and "\<not> isWhiteSpace (last (stripTrailingCode t))"
proof -
  define n where "n = length t - 3"
  have s: "stripTrailingCode t \<noteq> [] \<and> \<not> isWhiteSpace (hd (stripTrailingCode t))
      \<and> \<not> isWhiteSpace (last (stripTrailingCode t))"
  proof (cases "3 \<le> length t \<and> list_all isLetter (drop (length t - 3) t)")
    case True
    then have u: "stripTrailingCode t = trimEnd (take n t)"
      by (simp add: stripTrailingCode_def n_def)
    have "length t \<noteq> 3" using True assms(4) by auto
    then have "take n t \<noteq> []" using True assms(1) by (simp add: n_def)
    moreover from this have "hd (take n t) = hd t" by (cases t; cases n) simp_all
    ultimately have ne: "trimEnd (take n t) \<noteq> []"
      using assms(2) by (intro trimEnd_ne) simp_all
    then have "hd (trimEnd (take n t)) = hd t"
      using \<open>hd (take n t) = hd t\<close> by (simp add: trimEnd_hd)
    then show ?thesis
      using ne assms(2) trimEnd_last [OF ne] by (simp add: u)
  next
    case False
    then have "stripTrailingCode t = t" by (auto simp: stripTrailingCode_def)
    then show ?thesis using assms by simp
  qed
  then show "stripTrailingCode t \<noteq> []"
    and "\<not> isWhiteSpace (hd (stripTrailingCode t))"
    and "\<not> isWhiteSpace (last (stripTrailingCode t))"
    by simp_all
qed

lemma stripTrailingCode_prefix:
  assumes "t \<noteq> []" and "\<not> isWhiteSpace (hd t)"
    and "\<not> (3 \<le> length t \<and> list_all isLetter (take 3 t))"
    and p: "p \<noteq> []" "\<forall>x\<in>set p. \<not> isLetter x"
  shows "stripTrailingCode (p @ t) = p @ stripTrailingCode t"
proof (cases "3 \<le> length t")
  case True
  define n where "n = length t - 3"
  have len: "length (p @ t) - 3 = length p + n" using True by (simp add: n_def)
  have d: "drop (length (p @ t) - 3) (p @ t) = drop n t"
    unfolding len by simp
  have k: "take (length (p @ t) - 3) (p @ t) = p @ take n t"
    unfolding len by simp
  show ?thesis
  proof (cases "list_all isLetter (drop n t)")
    case letters: True
    have "length t \<noteq> 3" using True letters assms(3) by (auto simp: n_def)
    then have "take n t \<noteq> []" using True assms(1) by (simp add: n_def)
    moreover from this have "hd (take n t) = hd t" by (cases t; cases n) simp_all
    ultimately have "trimEnd (take n t) \<noteq> []"
      using assms(2) by (intro trimEnd_ne) simp_all
    then have "trimEnd (p @ take n t) = p @ trimEnd (take n t)"
      by (rule trimEnd_append)
    moreover have "stripTrailingCode t = trimEnd (take n t)"
      using True letters by (simp add: stripTrailingCode_def n_def)
    moreover have "stripTrailingCode (p @ t) = trimEnd (p @ take n t)"
      using True letters unfolding stripTrailingCode_def d k by simp
    ultimately show ?thesis by simp
  next
    case False
    then have "stripTrailingCode t = t"
      by (simp add: stripTrailingCode_def n_def)
    moreover have "stripTrailingCode (p @ t) = p @ t"
      using False unfolding stripTrailingCode_def d by simp
    ultimately show ?thesis by simp
  qed
next
  case False
  then have u: "stripTrailingCode t = t" by (simp add: stripTrailingCode_def)
  define k where "k = length (p @ t) - 3"
  have "k < length p" using False p(1) by (cases p) (simp_all add: k_def)
  then have "drop k p \<noteq> []" by simp
  then obtain x where "x \<in> set (drop k p)" by (cases "drop k p") auto
  then have "x \<in> set (drop k (p @ t))" and "\<not> isLetter x"
    using p(2) by (auto dest: in_set_dropD)
  then have "\<not> list_all isLetter (drop (length (p @ t) - 3) (p @ t))"
    unfolding k_def by (auto simp: list_all_iff)
  then have "stripTrailingCode (p @ t) = p @ t"
    by (subst stripTrailingCode_def) (simp only: simp_thms if_False)
  then show ?thesis using u by simp
qed

lemma cleanText_minus_prefix:
  assumes t: "t \<noteq> []" "\<not> isWhiteSpace (hd t)" "\<not> isWhiteSpace (last t)"
    and a: "list_all isWhiteSpace a"
    and front: "\<not> isCurrencySymbol (hd t)"
      "\<not> (3 \<le> length t \<and> list_all isLetter (take 3 t))"
  shows "cleanText ((MINUS # a) @ t) = (MINUS # a) @ cleanText t"
proof -
  define p where "p = MINUS # a"
  define u where "u = stripTrailingCode t"
  note e = stripTrailingCode_ends [OF t front(2), folded u_def]
  have p: "p \<noteq> []" "\<forall>x\<in>set p. \<not> isLetter x" "hd (p @ t) = MINUS" "hd (p @ u) = MINUS"
    using a by (auto simp: p_def list_all_iff dest: space_not_letter)
  have "stripLeadingCode t = t"
    using front(2) by (auto simp: stripLeadingCode_def)
  then have ct: "cleanText t = u"
    using t(1) front(1) e by (simp add: cleanText_def stripCurrencySymbol_id u_def trim_id)
  have "stripTrailingCode (p @ t) = p @ u"
    unfolding u_def using t(1,2) front(2) p(1,2) by (rule stripTrailingCode_prefix)
  moreover have "trim (p @ u) = p @ u"
    using e p(1,4) by (intro trim_id) simp
  ultimately have "cleanText (p @ t) = p @ u"
    using p(3) by (simp add: cleanText_def stripCurrencySymbol_id stripLeadingCode_id)
  then show ?thesis unfolding ct p_def .
qed

lemma trim_minus:
  assumes "trim s \<noteq> []"
  shows "\<exists>a. list_all isWhiteSpace a \<and> trim (MINUS # s) = (MINUS # a) @ trim s"
proof -
  define t where "t = trim s"
  obtain a b where d: "s = a @ t @ b" "list_all isWhiteSpace a" "list_all isWhiteSpace b"
    using trim_decomp [of s] unfolding t_def by blast
  have l: "\<not> isWhiteSpace (last t)" using assms trim_ends(2) by (simp add: t_def)
  have ne: "t \<noteq> []" using assms by (simp add: t_def)
  have e: "MINUS # s = ((MINUS # a) @ t) @ b" by (simp add: d(1))
  have "trim (MINUS # s) = trimEnd (MINUS # s)" by (simp add: trim_def)
  also have "\<dots> = trimEnd (((MINUS # a) @ t) @ b)" by (simp only: e)
  also have "\<dots> = trimEnd ((MINUS # a) @ t)"
    using d(3) by (rule trimEnd_append_spaces)
  also have "\<dots> = (MINUS # a) @ t"
    using l ne by (intro trimEnd_id) simp
  finally show ?thesis using d(2) unfolding t_def by blast
qed

lemma assemble_negate: "assemble True ip dp = negate (assemble False ip dp)"
  by (simp add: assemble_def Let_def case_prod_beta)

lemma set_cleanText: "set (cleanText t) \<subseteq> set t"
proof -
  have "set (stripCurrencySymbol t) \<subseteq> set t"
    by (cases t) (auto simp: stripCurrencySymbol_def)
  moreover have "set (stripLeadingCode x) \<subseteq> set x" for x
    by (auto simp: stripLeadingCode_def dest: set_dropWhileD in_set_dropD)
  ultimately show ?thesis
    unfolding cleanText_def Let_def
    using set_trim set_stripTrailingCode by (meson subset_trans)
qed

section \<open>Decimal numerals are read exactly\<close>

lemma numeralValue_cents:
  assumes "case fr of None \<Rightarrow> True | Some fp \<Rightarrow> length fp \<le> 2"
  shows "numeralValue neg ip fr * 100 =
      of_int ((if neg then - 1 else 1) *
        int (100 * digitsValue ip +
          (case fr of None \<Rightarrow> 0 | Some fp \<Rightarrow> digitsValue fp * 10 ^ (2 - length fp))))"
proof (cases fr)
  case None
  then show ?thesis by (simp add: numeralValue_def)
next
  case (Some fp)
  then consider "fp = []" | "length fp = 1" | "length fp = 2"
    using assms by (cases fp) (auto simp: le_Suc_eq numeral_2_eq_2)
  then show ?thesis
  proof cases
    case 1
    then show ?thesis using Some by (simp add: numeralValue_def)
  next
    case 2
    then show ?thesis using Some by (simp add: numeralValue_def field_simps)
  next
    case 3
    then show ?thesis using Some by (simp add: numeralValue_def field_simps)
  qed
qed

lemma eval_2_53_plus_1:
  "parseMoney (JSString (ascii ''90071992547409.93'')) = Inr (Num 9007199254740992)"
  by (simp add: parseMoney_eval)

lemma eval_plus_sign:
  "parseMoney (JSString (ascii ''+1.50'')) = Inl (InvalidIntegerPart (ascii ''+1.50''))"
  by (simp add: parseMoney_eval)

text \<open>
  Claim C1, as amended. For every decimal numeral \<open>D\<close> (an optional minus sign, one or
  more digits, and optionally a point followed by at most two digits) whose value in
  minor units, \<open>round (D * 100)\<close>, is at most \<open>2 ^ 53\<close> in magnitude, the parser
  succeeds and returns exactly \<open>round (D * 100)\<close>.
\<close>

theorem decimal_numeral_exact:
  assumes "onlyDigits ip" and "ip \<noteq> []"
    and "case fr of None \<Rightarrow> True | Some fp \<Rightarrow> onlyDigits fp \<and> length fp \<le> 2"
    and "\<bar>round (numeralValue neg ip fr * 100)\<bar> \<le> 2 ^ 53"
  shows "parseMoney (JSString (decimalNumeral neg ip fr)) =
      Inr (Num (round (numeralValue neg ip fr * 100)))"
proof -
  define n where "n = 100 * digitsValue ip +
      (case fr of None \<Rightarrow> 0 | Some fp \<Rightarrow> digitsValue fp * 10 ^ (2 - length fp))"
  have "case fr of None \<Rightarrow> True | Some fp \<Rightarrow> length fp \<le> 2"
    using assms(3) by (cases fr) simp_all
  then have "numeralValue neg ip fr * 100 = of_int ((if neg then - 1 else 1) * int n)"
    unfolding n_def by (rule numeralValue_cents)
  then have r: "round (numeralValue neg ip fr * 100) = (if neg then - 1 else 1) * int n"
    by (simp only: round_of_int)
  then have "int n \<le> 2 ^ 53" using assms(4) by (simp split: if_splits)
  then have "n \<le> 2 ^ 53" by simp
  then have "numberOfNat n = Num (int n)" by (rule numberOfNat_exact)
  then show ?thesis
    using parseMoney_numeral [OF assms(1,2,3), of neg] unfolding r n_def by simp
qed

theorem decimal_numeral_exact_witness:
  "onlyDigits (ascii ''1234'') \<and> ascii ''1234'' \<noteq> []
   \<and> onlyDigits (ascii ''56'') \<and> length (ascii ''56'') \<le> 2
   \<and> round (numeralValue False (ascii ''1234'') (Some (ascii ''56'')) * 100) = 123456
   \<and> decimalNumeral False (ascii ''1234'') (Some (ascii ''56'')) = ascii ''1234.56''
   \<and> parseMoney (JSString (ascii ''1234.56'')) = Inr (Num 123456)"
proof -
  have h: "onlyDigits (ascii ''1234'')" "ascii ''1234'' \<noteq> []"
    "case Some (ascii ''56'') of None \<Rightarrow> True | Some fp \<Rightarrow> onlyDigits fp \<and> length fp \<le> 2"
    by (simp_all add: ascii_def isDigit_def)
  have v: "numeralValue False (ascii ''1234'') (Some (ascii ''56'')) * 100 = 123456"
    by (simp add: numeralValue_def digitsValue_def ascii_def)
  have r: "round (numeralValue False (ascii ''1234'') (Some (ascii ''56'')) * 100) = 123456"
    unfolding v by simp
  have b: "\<bar>round (numeralValue False (ascii ''1234'') (Some (ascii ''56'')) * 100)\<bar> \<le> 2 ^ 53"
    unfolding r by simp
  have d: "decimalNumeral False (ascii ''1234'') (Some (ascii ''56'')) = ascii ''1234.56''"
    by (simp add: decimalNumeral_def ascii_def)
  from decimal_numeral_exact [OF h b] h r d show ?thesis by simp
qed

theorem decimal_numeral_counterexample:
  "decimalNumeral False (ascii ''90071992547409'') (Some (ascii ''93'')) =
     ascii ''90071992547409.93''
   \<and> round (numeralValue False (ascii ''90071992547409'') (Some (ascii ''93'')) * 100) =
     9007199254740993
   \<and> parseMoney (JSString (ascii ''90071992547409.93'')) = Inr (Num 9007199254740992)
   \<and> parseMoney (JSString (ascii ''+1.50'')) = Inl (InvalidIntegerPart (ascii ''+1.50''))"
proof -
  have "numeralValue False (ascii ''90071992547409'') (Some (ascii ''93'')) * 100 =
      9007199254740993"
    by (simp add: numeralValue_def digitsValue_def ascii_def)
  then have "round (numeralValue False (ascii ''90071992547409'') (Some (ascii ''93'')) * 100) =
      9007199254740993"
    by simp
  moreover have "decimalNumeral False (ascii ''90071992547409'') (Some (ascii ''93'')) =
      ascii ''90071992547409.93''"
    by (simp add: decimalNumeral_def ascii_def)
  ultimately show ?thesis
    by (simp only: eval_2_53_plus_1 eval_plus_sign simp_thms)
qed

section \<open>End-to-end examples\<close>

text \<open>
  Claim C2. Of the five end-to-end scenarios, four come out as documented:
  \<^verbatim>\<open>"$1,234.56"\<close> gives 123456, the rupee amount \<^verbatim>\<open>"1,23,456.78"\<close> gives 12345678,
  the pound amount \<^verbatim>\<open>"10,000,000.00"\<close> gives 1000000000 and the empty string is
  rejected as empty. The yen amount \<^verbatim>\<open>"1,234"\<close> does not give 123400: its only
  separator is taken for the decimal separator, the decimal part \<^verbatim>\<open>"234"\<close> is cut to
  two digits, and the result is 123.
\<close>

theorem end_to_end_scenarios:
  "parseMoney (JSString (ascii ''$1,234.56'')) = Inr (Num 123456)
   \<and> parseMoney (JSString (165 # ascii ''1,234'')) = Inr (Num 123)
   \<and> parseMoney (JSString (165 # ascii ''1,234'')) \<noteq> Inr (Num 123400)
   \<and> parseMoney (JSString (8377 # ascii ''1,23,456.78'')) = Inr (Num 12345678)
   \<and> (\<exists>e. parseMoney (JSString []) = Inl e \<and> failureKind e = EmptyInput)
   \<and> parseMoney (JSString (163 # ascii ''10,000,000.00'')) = Inr (Num 1000000000)"
  by (simp add: eval_dollar_1234_56 eval_yen_1234 eval_rupee eval_empty
        eval_pound_ten_million)

text \<open>
  Claim C8. The parenthesised amount is not parsed like the dash-negated one.
  \<^verbatim>\<open>"$-500.25"\<close> gives -50025, but \<^verbatim>\<open>"$(500.25)"\<close> is rejected: the text is split at
  the decimal point first, the closing parenthesis lands in the decimal part, and the
  sign markers are removed from the integer part only; \<^verbatim>\<open>"(500.25)"\<close> is rejected
  for the same reason. \<^verbatim>\<open>"($500.25)"\<close> is rejected too: the currency symbol is not at
  the start, so it stays in the integer part. Parentheses do work where there is no
  decimal part: \<^verbatim>\<open>"$(500)"\<close> gives -50000.
\<close>

theorem parenthesized_negative_rejected:
  "parseMoney (JSString (ascii ''$-500.25'')) = Inr (Num (- 50025))
   \<and> parseMoney (JSString (ascii ''$(500.25)'')) = Inl (InvalidDecimalPart (ascii ''$(500.25)''))
   \<and> parseMoney (JSString (ascii ''($500.25)'')) = Inl (InvalidIntegerPart (ascii ''($500.25)''))
   \<and> parseMoney (JSString (ascii ''(500.25)'')) = Inl (InvalidDecimalPart (ascii ''(500.25)''))
   \<and> parseMoney (JSString (ascii ''$(500)'')) = Inr (Num (- 50000))"
  by (simp add: eval_dollar_minus_500_25 eval_dollar_paren_500_25 eval_paren_dollar_500_25
        eval_paren_500_25 eval_dollar_paren_500)

section \<open>Separator roles\<close>

text \<open>
  Claim C6. In a cleaned text that contains both \<open>.\<close> and \<open>,\<close>, the two last occurrences
  are at different places; the separator whose last occurrence comes later is the
  decimal separator and the other one the thousands separator. So \<^verbatim>\<open>"$1,234.56"\<close> and
  the euro amount \<^verbatim>\<open>"1.234,56"\<close> both give 123456.
\<close>

theorem later_separator_is_decimal:
  assumes "DOT \<in> set c" and "COMMA \<in> set c"
  shows "(lastIndexOf c COMMA < lastIndexOf c DOT \<or> lastIndexOf c DOT < lastIndexOf c COMMA)
    \<and> (lastIndexOf c COMMA < lastIndexOf c DOT \<longrightarrow>
           inferSeparators c = (Some DOT, Some COMMA))
    \<and> (lastIndexOf c DOT < lastIndexOf c COMMA \<longrightarrow>
           inferSeparators c = (Some COMMA, Some DOT))
    \<and> parseMoney (JSString (ascii ''$1,234.56'')) = Inr (Num 123456)
    \<and> parseMoney (JSString (8364 # ascii ''1.234,56'')) = Inr (Num 123456)"
proof -
  have "lastIndexOf c DOT \<noteq> lastIndexOf c COMMA"
    using assms(1) by (rule lastIndexOf_distinct) simp
  then show ?thesis
    using assms by (auto simp: inferSeparators_cases eval_dollar_1234_56 eval_euro_1234_56)
qed

theorem later_separator_is_decimal_witness:
  "DOT \<in> set (ascii ''1.234,56'') \<and> COMMA \<in> set (ascii ''1.234,56'')
   \<and> lastIndexOf (ascii ''1.234,56'') DOT < lastIndexOf (ascii ''1.234,56'') COMMA
   \<and> inferSeparators (ascii ''1.234,56'') = (Some COMMA, Some DOT)"
proof -
  have d: "DOT \<in> set (ascii ''1.234,56'')" and c: "COMMA \<in> set (ascii ''1.234,56'')"
    by (simp_all add: ascii_def)
  have lt: "lastIndexOf (ascii ''1.234,56'') DOT < lastIndexOf (ascii ''1.234,56'') COMMA"
    by (simp add: ascii_def lastIndexOf_def)
  from later_separator_is_decimal [OF d c] lt d c show ?thesis by simp
qed

text \<open>
  Claim C3, as amended. A cleaned text whose only separator kind is \<open>.\<close>, with a number
  of characters after the last \<open>.\<close> that is neither 2 nor 3, has \<open>.\<close> for its decimal
  separator, not for a thousands separator: the integer part is the text before the
  first \<open>.\<close>, and the decimal part is the text after it with any further \<open>.\<close> removed.
  \<^verbatim>\<open>"1.2345"\<close> gives 123.
\<close>

theorem lone_dot_is_decimal_separator:
  assumes "DOT \<in> set c" and "COMMA \<notin> set c"
    and "length (substring c (lastIndexOf c DOT + 1)) \<noteq> 2"
    and "length (substring c (lastIndexOf c DOT + 1)) \<noteq> 3"
  shows "inferSeparators c = (Some DOT, Some COMMA)
    \<and> splitParts c (Some DOT) =
        (takeWhile (\<lambda>x. x \<noteq> DOT) c, removeAll_char DOT (dropWhile (\<lambda>x. x \<noteq> DOT) c))
    \<and> parseMoney (JSString (ascii ''1.2345'')) = Inr (Num 123)"
proof -
  have "lastIndexOf c COMMA < lastIndexOf c DOT"
    using assms(1,2) lastIndexOf_present(1) [of DOT c] by (simp add: lastIndexOf_absent)
  then show ?thesis
    using assms(1) by (simp add: inferSeparators_cases splitParts_Some removeAll_char_def eval_1_2345)
qed

theorem lone_dot_is_decimal_separator_witness:
  "DOT \<in> set (ascii ''1.2345'') \<and> COMMA \<notin> set (ascii ''1.2345'')
   \<and> length (substring (ascii ''1.2345'') (lastIndexOf (ascii ''1.2345'') DOT + 1)) = 4
   \<and> inferSeparators (ascii ''1.2345'') = (Some DOT, Some COMMA)
   \<and> splitParts (ascii ''1.2345'') (Some DOT) = (ascii ''1'', ascii ''2345'')"
proof -
  have d: "DOT \<in> set (ascii ''1.2345'')" and c: "COMMA \<notin> set (ascii ''1.2345'')"
    by (simp_all add: ascii_def)
  have l: "length (substring (ascii ''1.2345'') (lastIndexOf (ascii ''1.2345'') DOT + 1)) = 4"
    by (simp add: ascii_def lastIndexOf_def substring_def)
  from lone_dot_is_decimal_separator [OF d c] l show ?thesis
    by (simp add: ascii_def removeAll_char_def)
qed

theorem lone_separator_counterexample:
  "signedParts (ascii ''1.2345'') = (False, ascii ''1'', ascii ''2345'')
   \<and> parseMoney (JSString (ascii ''1.2345'')) = Inr (Num 123)
   \<and> parseMoney (JSString (ascii ''1.2345'')) \<noteq> Inr (Num 1234500)"
  by (simp add: eval_1_2345 eval_signedParts_1_2345)

section \<open>Rounding of the decimal part\<close>

text \<open>
  Claim C4, as amended. For a decimal part of three digits or more, only the third digit
  \<open>d\<close> decides the rounding (the code unit of the digit 5 is 53) and the digits after it
  play no part: below 5 the first two digits are kept; from 5 on the two-digit value is
  incremented and written with two digits; and when it was 99 the decimal part becomes
  \<^verbatim>\<open>"00"\<close> and the integer part is replaced by the numeral of its value plus one,
  provided that value is below \<open>2 ^ 53\<close>. Integer part \<^verbatim>\<open>"9"\<close> with decimal part
  \<^verbatim>\<open>"995"\<close> gives \<^verbatim>\<open>"10"\<close> and \<^verbatim>\<open>"00"\<close>.
\<close>

theorem third_digit_decides_rounding:
  assumes "isDigit a" and "isDigit b" and "isDigit d" and "onlyDigits ip" and "ip \<noteq> []"
  shows "(d < 53 \<longrightarrow> normalizeDecimal ip (a # b # d # rest) = (ip, [a, b]))
    \<and> (53 \<le> d \<and> digitsValue [a, b] < 99 \<longrightarrow>
         normalizeDecimal ip (a # b # d # rest) =
           (ip, padStart 2 ZERO (decimalDigits (digitsValue [a, b] + 1))))
    \<and> (53 \<le> d \<and> digitsValue [a, b] = 99 \<and> digitsValue ip < 2 ^ 53 \<longrightarrow>
         normalizeDecimal ip (a # b # d # rest) =
           (decimalDigits (digitsValue ip + 1), ascii ''00''))"
  using carry_exact [OF assms(4,5)]
  by (simp add: normalizeDecimal_long [OF assms(1,2,3)])

theorem third_digit_decides_rounding_witness:
  "isDigit 57 \<and> isDigit 53 \<and> onlyDigits (ascii ''9'') \<and> ascii ''9'' \<noteq> []
   \<and> digitsValue [57, 57] = 99 \<and> digitsValue (ascii ''9'') < 2 ^ 53
   \<and> normalizeDecimal (ascii ''9'') (ascii ''995'') = (ascii ''10'', ascii ''00'')"
proof -
  have h: "isDigit 57" "isDigit 53" "onlyDigits (ascii ''9'')" "ascii ''9'' \<noteq> []"
    by (simp_all add: isDigit_def ascii_def)
  have v: "digitsValue [57, 57] = 99" "digitsValue (ascii ''9'') < 2 ^ 53"
    "decimalDigits (digitsValue (ascii ''9'') + 1) = ascii ''10''"
    by (simp_all add: digitsValue_def ascii_def decimalDigits.simps)
  from third_digit_decides_rounding [OF h(1) h(1) h(2) h(3) h(4), of "[]"] h v
  show ?thesis by (simp add: ascii_def)
qed

theorem carry_into_integer_part_counterexample:
  "normalizeDecimal (ascii ''9007199254740992'') (ascii ''995'') =
     (ascii ''9007199254740992'', ascii ''00'')
   \<and> parseMoney (JSString (ascii ''9007199254740992.995'')) = Inr (Num 900719925474099200)"
  by (simp add: eval_carry_lost eval_carry_lost_parts)

section \<open>Failures and results\<close>

text \<open>
  Claim C5, as amended. The parser fails with \<open>EmptyInput\<close> exactly when the input is
  not a string or is empty after trimming; it fails with \<open>InvalidCharacters\<close> exactly
  when, after cleaning, splitting and sign stripping, the integer part or the decimal
  part has a character that is not a digit; in every other case it returns a Number, and
  there is no other failure. The Number is a signed integer whenever a hundred times the
  value of the integer part plus 99 is below \<open>2 ^ 1024 - 2 ^ 970\<close>, the least number
  that overflows a double.
\<close>

theorem parseMoney_outcomes:
  "((\<exists>e. parseMoney x = Inl e \<and> failureKind e = EmptyInput) \<longleftrightarrow>
      x = NotAString \<or> (\<exists>s. x = JSString s \<and> trim s = []))
   \<and> ((\<exists>e. parseMoney x = Inl e \<and> failureKind e = InvalidCharacters) \<longleftrightarrow>
      (\<exists>s neg ip dp. x = JSString s \<and> signedParts (cleanText (trim s)) = (neg, ip, dp)
         \<and> (\<not> onlyDigits ip \<or> \<not> onlyDigits dp)))
   \<and> ((\<exists>v. parseMoney x = Inr v) \<longleftrightarrow>
      (\<exists>s neg ip dp. x = JSString s \<and> trim s \<noteq> []
         \<and> signedParts (cleanText (trim s)) = (neg, ip, dp)
         \<and> onlyDigits ip \<and> onlyDigits dp))
   \<and> (\<forall>s neg ip dp v. x = JSString s \<and> signedParts (cleanText (trim s)) = (neg, ip, dp)
         \<and> parseMoney x = Inr v
         \<and> 100 * digitsValue ip + 99 < overflowThreshold \<longrightarrow>
         (\<exists>n. v = Num n))"
proof (cases x)
  case NotAString
  then show ?thesis by (simp add: parseMoney_def)
next
  case (JSString s)
  show ?thesis
  proof (cases "trim s = []")
    case True
    then have "parseMoney x = Inl EmptyMoneyString"
      using JSString by (simp add: parseMoney_def)
    then show ?thesis
      using JSString True by (simp add: cleanText_Nil signedParts_Nil)
  next
    case False
    obtain neg ip dp where sp: "signedParts (cleanText (trim s)) = (neg, ip, dp)"
      by (metis prod_cases3)
    define ip' where "ip' = (if ip = [] then ascii ''0'' else ip)"
    note pm = parseMoney_string [OF False sp, folded ip'_def]
    have int: "\<exists>n. assemble neg ip' dp = Num n"
      if d: "onlyDigits ip" "onlyDigits dp"
        and small: "100 * digitsValue ip + 99 < overflowThreshold"
    proof -
      have i: "onlyDigits ip'" "ip' \<noteq> []" "digitsValue ip' = digitsValue ip"
        using d(1) by (auto simp: ip'_def) (simp add: ascii_def)
      show ?thesis
        using assemble_integer [OF i(1,2) d(2), of neg] small i(3) by simp
    qed
    show ?thesis
      using JSString False sp pm int by auto
  qed
qed

theorem overflow_to_infinity_counterexample:
  "parseMoney (JSString (replicate 310 57)) = Inr PosInfinity"
  by (rule eval_310_nines)

theorem parseMoney_outcomes_witness:
  "trim (ascii ''12.34'') \<noteq> []
   \<and> signedParts (cleanText (trim (ascii ''12.34''))) = (False, ascii ''12'', ascii ''34'')
   \<and> onlyDigits (ascii ''12'') \<and> onlyDigits (ascii ''34'')
   \<and> 100 * digitsValue (ascii ''12'') + 99 < overflowThreshold
   \<and> (\<exists>n. parseMoney (JSString (ascii ''12.34'')) = Inr (Num n))"
proof -
  have t: "trim (ascii ''12.34'') \<noteq> []"
    by (simp add: parseMoney_eval)
  have sp: "signedParts (cleanText (trim (ascii ''12.34''))) =
      (False, ascii ''12'', ascii ''34'')"
    by (simp add: parseMoney_eval)
  have d: "onlyDigits (ascii ''12'')" "onlyDigits (ascii ''34'')"
    by (simp_all add: ascii_def isDigit_def)
  have v: "100 * digitsValue (ascii ''12'') + 99 < overflowThreshold"
    by (simp add: ascii_def digitsValue_def overflowThreshold_def)
  note out = parseMoney_outcomes [of "JSString (ascii ''12.34'')"]
  from out have "(\<exists>v. parseMoney (JSString (ascii ''12.34'')) = Inr v) \<longleftrightarrow>
      (\<exists>s neg ip dp. JSString (ascii ''12.34'') = JSString s \<and> trim s \<noteq> []
         \<and> signedParts (cleanText (trim s)) = (neg, ip, dp)
         \<and> onlyDigits ip \<and> onlyDigits dp)"
    by (elim conjE)
  then obtain r where r: "parseMoney (JSString (ascii ''12.34'')) = Inr r"
    using t sp d by blast
  from out have "\<forall>s neg ip dp v. JSString (ascii ''12.34'') = JSString s
         \<and> signedParts (cleanText (trim s)) = (neg, ip, dp)
         \<and> parseMoney (JSString (ascii ''12.34'')) = Inr v
         \<and> 100 * digitsValue ip + 99 < overflowThreshold \<longrightarrow>
         (\<exists>n. v = Num n)"
    by (elim conjE)
  then have "\<exists>n. r = Num n"
    using sp r v by blast
  then obtain n where "r = Num n" by blast
  then show ?thesis using t sp d v r by simp
qed

section \<open>Negation by a leading minus sign\<close>

lemma eval_dollar_100:
  "parseMoney (JSString (ascii ''$100'')) = Inr (Num 10000)"
  by (simp add: parseMoney_eval)

lemma eval_minus_dollar_100:
  "parseMoney (JSString (MINUS # ascii ''$100'')) = Inl (InvalidIntegerPart (ascii ''-$100''))"
  by (simp add: parseMoney_eval)

lemma eval_USD_100:
  "parseMoney (JSString (ascii ''USD 100'')) = Inr (Num 10000)"
  by (simp add: parseMoney_eval)

lemma eval_minus_USD_100:
  "parseMoney (JSString (MINUS # ascii ''USD 100'')) =
     Inl (InvalidIntegerPart (ascii ''-USD 100''))"
  by (simp add: parseMoney_eval)

lemma eval_100_EUR:
  "parseMoney (JSString (ascii ''1,000.50 EUR'')) = Inr (Num 100050)"
  by (simp add: parseMoney_eval)

text \<open>
  Claim C7, as amended. For every string \<open>s\<close> that contains no sign marker, whose
  trimmed text begins neither with a recognised currency symbol nor with three letters,
  and for which the parser succeeds, the parser succeeds on \<open>"-" + s\<close> and returns the
  negated result.
\<close>

theorem leading_minus_negates:
  assumes "MINUS \<notin> set s" and "LPAREN \<notin> set s" and "RPAREN \<notin> set s"
    and "parseMoney (JSString s) = Inr v"
    and "\<not> isCurrencySymbol (hd (trim s))"
    and "\<not> (3 \<le> length (trim s) \<and> list_all isLetter (take 3 (trim s)))"
  shows "parseMoney (JSString (MINUS # s)) = Inr (negate v)"
proof -
  define t where "t = trim s"
  have ne: "t \<noteq> []"
    using assms(4) by (auto simp: t_def parseMoney_def)
  note ends = trim_ends [of s, folded t_def, OF ne]
  obtain a where a: "list_all isWhiteSpace a" "trim (MINUS # s) = (MINUS # a) @ t"
    using trim_minus [of s] ne unfolding t_def by blast
  obtain neg ip dp where sp: "signedParts (cleanText t) = (neg, ip, dp)"
    by (metis prod_cases3)
  have "set (cleanText t) \<subseteq> set s"
    using set_cleanText [of t] set_trim [of s] by (auto simp: t_def)
  then have "\<not> fst (signedParts (cleanText t))"
    using assms(1,2) signedParts_negative [of "cleanText t"] by blast
  then have neg: "neg = False" using sp by simp
  have c: "cleanText ((MINUS # a) @ t) = (MINUS # a) @ cleanText t"
    using ne ends a(1) assms(5,6) unfolding t_def [symmetric]
    by (rule cleanText_minus_prefix)
  have sp': "signedParts (cleanText (trim (MINUS # s))) = (True, ip, dp)"
    unfolding a(2) c signedParts_minus_prefix [OF a(1)] sp by simp
  have ne': "trim (MINUS # s) \<noteq> []" unfolding a(2) by simp
  note plain = parseMoney_string [OF ne [unfolded t_def] sp [unfolded t_def]]
  note minus = parseMoney_string [OF ne' sp']
  from plain assms(4) have ok: "onlyDigits ip" "onlyDigits dp"
    by (auto split: if_splits)
  with plain assms(4) have "v = assemble False (if ip = [] then ascii ''0'' else ip) dp"
    by (simp add: neg)
  then show ?thesis
    using minus ok by (simp add: assemble_negate)
qed

theorem leading_minus_negates_witness:
  "MINUS \<notin> set (ascii ''1,000.50 EUR'') \<and> LPAREN \<notin> set (ascii ''1,000.50 EUR'')
   \<and> RPAREN \<notin> set (ascii ''1,000.50 EUR'')
   \<and> parseMoney (JSString (ascii ''1,000.50 EUR'')) = Inr (Num 100050)
   \<and> trim (ascii ''1,000.50 EUR'') = ascii ''1,000.50 EUR''
   \<and> \<not> isCurrencySymbol 49 \<and> \<not> isLetter 49
   \<and> parseMoney (JSString (ascii ''-1,000.50 EUR'')) = Inr (Num (- 100050))"
proof -
  have m: "MINUS \<notin> set (ascii ''1,000.50 EUR'')" "LPAREN \<notin> set (ascii ''1,000.50 EUR'')"
    "RPAREN \<notin> set (ascii ''1,000.50 EUR'')"
    by (simp_all add: ascii_def)
  have t: "trim (ascii ''1,000.50 EUR'') = ascii ''1,000.50 EUR''"
    by (simp add: trim_def trimEnd_def ascii_def isWhiteSpace_def)
  have c: "\<not> isCurrencySymbol 49" "\<not> isLetter 49"
    by (simp_all add: isCurrencySymbol_def currencySymbols_def isLetter_def)
  have f: "\<not> isCurrencySymbol (hd (trim (ascii ''1,000.50 EUR'')))"
    "\<not> (3 \<le> length (trim (ascii ''1,000.50 EUR''))
        \<and> list_all isLetter (take 3 (trim (ascii ''1,000.50 EUR''))))"
    unfolding t using c by (simp_all add: ascii_def)
  from leading_minus_negates [OF m eval_100_EUR f] m t c eval_100_EUR show ?thesis
    by (simp add: ascii_def)
qed

theorem leading_minus_counterexample:
  "MINUS \<notin> set (ascii ''$100'') \<and> LPAREN \<notin> set (ascii ''$100'')
   \<and> RPAREN \<notin> set (ascii ''$100'')
   \<and> parseMoney (JSString (ascii ''$100'')) = Inr (Num 10000)
   \<and> parseMoney (JSString (MINUS # ascii ''$100'')) =
       Inl (InvalidIntegerPart (ascii ''-$100''))
   \<and> parseMoney (JSString (ascii ''USD 100'')) = Inr (Num 10000)
   \<and> parseMoney (JSString (MINUS # ascii ''USD 100'')) =
       Inl (InvalidIntegerPart (ascii ''-USD 100''))"
proof -
  have "MINUS \<notin> set (ascii ''$100'')" "LPAREN \<notin> set (ascii ''$100'')"
    "RPAREN \<notin> set (ascii ''$100'')"
    by (simp_all add: ascii_def)
  then show ?thesis
    by (simp only: eval_dollar_100 eval_minus_dollar_100 eval_USD_100 eval_minus_USD_100
        simp_thms)
qed

section \<open>The two copies of the parser agree\<close>

text \<open>
  Claim C9. On every input, \<^verbatim>\<open>parseMoney\<close> of \<^verbatim>\<open>n8n_parse_money.js\<close> and
  \<^verbatim>\<open>parseMoney\<close> of the stand-alone script give the same outcome: the same Number, or
  the same error.
\<close>

theorem n8n_parseMoney_eq_parseMoney: "n8n_parseMoney x = parseMoney x"
  unfolding n8n_parseMoney_def parseMoney_def assemble_def cleanText_def signedParts_def
    inferSeparators_def splitParts_def normalizeDecimal_def
  by (simp only: Let_def case_prod_beta fst_conv snd_conv)

section \<open>Inputs with a symbol or a code and no amount\<close>

text \<open>
  Claim C10, as amended. An input made, apart from white space around it, of a
  recognised currency symbol alone, or of three letters that do not begin with \<open>R\<close> or
  \<open>r\<close> (both are in the symbol set), or of a currency symbol followed by optional white
  space and any three letters, does not fail: the cleaned text is empty, the integer
  part defaults to \<^verbatim>\<open>"0"\<close>, the decimal part to \<^verbatim>\<open>"00"\<close>, and the result is 0.
\<close>

theorem symbol_or_code_alone_gives_zero:
  assumes "list_all isWhiteSpace w1" and "list_all isWhiteSpace w2"
    and "list_all isWhiteSpace w3"
    and "isCurrencySymbol c" and "isLetter k1" and "isLetter k2" and "isLetter k3"
  shows "cleanText (trim (w1 @ c # w3)) = []
    \<and> parseMoney (JSString (w1 @ c # w3)) = Inr (Num 0)
    \<and> cleanText (trim (w1 @ c # w2 @ k1 # k2 # k3 # w3)) = []
    \<and> parseMoney (JSString (w1 @ c # w2 @ k1 # k2 # k3 # w3)) = Inr (Num 0)
    \<and> (k1 \<noteq> 82 \<and> k1 \<noteq> 114 \<longrightarrow>
         cleanText (trim (w1 @ k1 # k2 # k3 # w3)) = []
         \<and> parseMoney (JSString (w1 @ k1 # k2 # k3 # w3)) = Inr (Num 0))
    \<and> signedParts [] = (False, [], ascii ''00'')
    \<and> normalizeDecimal (ascii ''0'') (ascii ''00'') = (ascii ''0'', ascii ''00'')"
proof -
  have c: "\<not> isWhiteSpace c" using assms(4) by (rule symbol_not_space)
  have k: "\<not> isWhiteSpace k1" "\<not> isWhiteSpace k3"
    using assms(5,7) by (simp_all add: letter_not_space)
  have t1: "trim (w1 @ c # w3) = [c]"
    using trim_wrap [of w1 w3 "[c]"] assms(1,3) c by simp
  have t2: "trim (w1 @ c # w2 @ k1 # k2 # k3 # w3) = c # w2 @ [k1, k2, k3]"
    using trim_wrap [of w1 w3 "c # w2 @ [k1, k2, k3]"] assms(1,3) c k by simp
  have t3: "trim (w1 @ k1 # k2 # k3 # w3) = [k1, k2, k3]"
    using trim_wrap [of w1 w3 "[k1, k2, k3]"] assms(1,3) k by simp
  have c1: "cleanText (trim (w1 @ c # w3)) = []"
    unfolding t1 using assms(4) by (rule cleanText_symbol)
  have c2: "cleanText (trim (w1 @ c # w2 @ k1 # k2 # k3 # w3)) = []"
    unfolding t2 using assms(4,2,5,6,7) by (rule cleanText_symbol_code)
  have c3: "cleanText (trim (w1 @ k1 # k2 # k3 # w3)) = []" if "k1 \<noteq> 82 \<and> k1 \<noteq> 114"
    unfolding t3 using assms(5,6,7) that by (intro cleanText_code) (simp_all add: letter_symbol)
  have p1: "parseMoney (JSString (w1 @ c # w3)) = Inr (Num 0)"
    using c1 by (intro parseMoney_clean_empty) (simp_all add: t1)
  have p2: "parseMoney (JSString (w1 @ c # w2 @ k1 # k2 # k3 # w3)) = Inr (Num 0)"
    using c2 by (intro parseMoney_clean_empty) (simp_all add: t2)
  have p3: "parseMoney (JSString (w1 @ k1 # k2 # k3 # w3)) = Inr (Num 0)"
    if "k1 \<noteq> 82 \<and> k1 \<noteq> 114"
    using c3 [OF that] by (intro parseMoney_clean_empty) (simp_all add: t3)
  from c1 c2 c3 p1 p2 p3 signedParts_Nil normalizeDecimal_zero show ?thesis
    by blast
qed

theorem symbol_or_code_alone_gives_zero_witness:
  "list_all isWhiteSpace [] \<and> list_all isWhiteSpace (ascii '' '')
   \<and> isCurrencySymbol 36 \<and> isLetter 85 \<and> isLetter 83 \<and> isLetter 68 \<and> (85::nat) \<noteq> 82
   \<and> (85::nat) \<noteq> 114
   \<and> parseMoney (JSString (ascii ''$'')) = Inr (Num 0)
   \<and> parseMoney (JSString (ascii ''$ USD '')) = Inr (Num 0)
   \<and> parseMoney (JSString (ascii ''USD '')) = Inr (Num 0)"
proof -
  have w: "list_all isWhiteSpace []" "list_all isWhiteSpace (ascii '' '')"
    by (simp_all add: ascii_def isWhiteSpace_def)
  have s: "isCurrencySymbol 36"
    by (simp add: isCurrencySymbol_def currencySymbols_def)
  have l: "isLetter 85" "isLetter 83" "isLetter 68"
    by (simp_all add: isLetter_def)
  from symbol_or_code_alone_gives_zero [OF w(1) w(2) w(2) s l]
  have "parseMoney (JSString ([] @ 36 # ascii '' '' @ 85 # 83 # 68 # ascii '' '')) =
      Inr (Num 0)"
    and "parseMoney (JSString ([] @ 85 # 83 # 68 # ascii '' '')) = Inr (Num 0)"
    by simp_all
  moreover have "parseMoney (JSString ([] @ 36 # [])) = Inr (Num 0)"
    using symbol_or_code_alone_gives_zero [OF w(1) w(2) w(1) s l] by simp
  ultimately show ?thesis using w s l by (simp add: ascii_def)
qed

theorem code_beginning_with_R_counterexample:
  "cleanText (trim (ascii ''RUB'')) = ascii ''UB''
   \<and> parseMoney (JSString (ascii ''RUB'')) = Inl (InvalidIntegerPart (ascii ''RUB''))"
  by (simp add: eval_RUB eval_cleanText_RUB)

end
